theory Spec2Isabelle
  imports Main "HOL-Library.Sublist"
begin

section \<open>Strings\<close>

text \<open>
  A JavaScript string is modelled as an Isabelle \<open>string\<close>, one \<open>char\<close> per UTF-16 code
  unit. Isabelle characters are 8 bits wide, so the model covers the strings whose code
  units are all below 0x100; the character classes below list the members of each
  JavaScript class in that range.
\<close>

definition charCode :: "char \<Rightarrow> nat" where
  "charCode c = of_char c"

text \<open>\<open>s[i]\<close>: the character at index \<open>i\<close>, \<open>undefined\<close> (None) out of range.\<close>

definition charAt :: "string \<Rightarrow> nat \<Rightarrow> char option" where
  "charAt s i = (if i < length s then Some (s ! i) else None)"

text \<open>\<open>s.substring(a, b)\<close>: both ends are clamped to the length and swapped when \<open>a > b\<close>.\<close>

definition substring :: "string \<Rightarrow> nat \<Rightarrow> nat \<Rightarrow> string" where
  "substring s a b =
     (let a' = min a (length s); b' = min b (length s);
          lo = min a' b'; hi = max a' b'
      in take (hi - lo) (drop lo s))"

text \<open>The offset of the first occurrence of \<open>pat\<close> in \<open>s\<close>.\<close>

primrec findSub :: "string \<Rightarrow> string \<Rightarrow> nat option" where
  "findSub pat [] = (if pat = [] then Some 0 else None)"
| "findSub pat (c # cs) =
     (if prefix pat (c # cs) then Some 0 else map_option Suc (findSub pat cs))"

text \<open>\<open>s.indexOf(pat, from)\<close>, with None for the result \<open>-1\<close>.\<close>

definition indexOf :: "string \<Rightarrow> string \<Rightarrow> nat \<Rightarrow> nat option" where
  "indexOf s pat from =
     (let k = min from (length s) in map_option (\<lambda>j. k + j) (findSub pat (drop k s)))"

text \<open>\<open>s.split(sep)\<close> for a string separator.\<close>

fun splitAux :: "string \<Rightarrow> string \<Rightarrow> string \<Rightarrow> string list" where
  "splitAux sep cur [] = [cur]"
| "splitAux sep cur (c # cs) =
     (if sep \<noteq> [] \<and> prefix sep (c # cs)
      then cur # splitAux sep [] (drop (length sep) (c # cs))
      else splitAux sep (cur @ [c]) cs)"

definition split :: "string \<Rightarrow> string \<Rightarrow> string list" where
  "split s sep = (if sep = [] then map (\<lambda>c. [c]) s else splitAux sep [] s)"

text \<open>\<open>xs.join(sep)\<close>.\<close>

fun join :: "string list \<Rightarrow> string \<Rightarrow> string" where
  "join [] sep = []"
| "join [x] sep = x"
| "join (x # y # ys) sep = x @ sep @ join (y # ys) sep"

text \<open>
  White space as \<open>trim\<close> and the regular-expression class \<open>\s\<close> see it (tab, line feed,
  vertical tab, form feed, carriage return, space, no-break space), the line terminators
  that the regular-expression dot refuses, the class \<open>\w\<close> and the class \<open>\d\<close>.
\<close>

definition isSpace :: "char \<Rightarrow> bool" where
  "isSpace c \<longleftrightarrow> charCode c \<in> {9, 10, 11, 12, 13, 32, 160}"

definition isLineTerminator :: "char \<Rightarrow> bool" where
  "isLineTerminator c \<longleftrightarrow> charCode c \<in> {10, 13}"

definition isDigit :: "char \<Rightarrow> bool" where
  "isDigit c \<longleftrightarrow> 48 \<le> charCode c \<and> charCode c \<le> 57"

definition isWord :: "char \<Rightarrow> bool" where
  "isWord c \<longleftrightarrow>
     (65 \<le> charCode c \<and> charCode c \<le> 90) \<or> (97 \<le> charCode c \<and> charCode c \<le> 122)
     \<or> isDigit c \<or> c = CHR ''_''"

definition trimStart :: "string \<Rightarrow> string" where
  "trimStart s = dropWhile isSpace s"

definition trimEnd :: "string \<Rightarrow> string" where
  "trimEnd s = rev (dropWhile isSpace (rev s))"

definition trim :: "string \<Rightarrow> string" where
  "trim s = trimEnd (trimStart s)"

text \<open>
  Case mapping. \<open>lowerAscii\<close> and \<open>upperAscii\<close> change the letters A to Z only; they model
  the comparison of a case-insensitive regular expression without the unicode flag, and
  \<open>toUpperCase\<close> on strings of word characters. \<open>toLowerCase\<close> also maps the upper-case
  letters of the range 0xC0 to 0xDE (0xD7, the multiplication sign, apart).
\<close>

definition lowerAscii :: "char \<Rightarrow> char" where
  "lowerAscii c =
     (if 65 \<le> charCode c \<and> charCode c \<le> 90 then char_of (charCode c + 32) else c)"

definition upperAscii :: "char \<Rightarrow> char" where
  "upperAscii c =
     (if 97 \<le> charCode c \<and> charCode c \<le> 122 then char_of (charCode c - 32) else c)"

definition toLowerCase :: "string \<Rightarrow> string" where
  "toLowerCase s =
     map (\<lambda>c. if (65 \<le> charCode c \<and> charCode c \<le> 90)
                  \<or> (192 \<le> charCode c \<and> charCode c \<le> 222 \<and> charCode c \<noteq> 215)
               then char_of (charCode c + 32) else c) s"

definition startsWith :: "string \<Rightarrow> string \<Rightarrow> bool" where
  "startsWith s p = prefix p s"

text \<open>A literal prefix matched by a regular expression with the flag \<open>i\<close>.\<close>

definition startsWithCI :: "string \<Rightarrow> string \<Rightarrow> bool" where
  "startsWithCI s p = prefix (map lowerAscii p) (map lowerAscii s)"

section \<open>Syntax tree\<close>

datatype nodeType =
    Document | Heading | Paragraph | List | ListItem | Table | TableRow | TableCell
  | CodeBlock | Quote | Example | Verse | Center | Drawer | PropertyDrawer | Shortcode
  | Text | Bold | Italic | Underline | Code | Verbatim | Strike | Link | Image
  | Footnote | LineBreak | RawHtml

text \<open>
  The \<open>properties\<close> object of a token or of a node: one optional field for every key that
  the lexer, the parser or the renderer writes or reads.
\<close>

record properties =
  level :: "int option"
  tags :: "string list option"
  ordered :: "bool option"
  language :: "string option"
  blockType :: "string option"
  name :: "string option"
  component :: "string option"
  attrs :: "(string \<times> string) list option"
  href :: "string option"
  src :: "string option"
  alt :: "string option"
  ref :: "string option"

datatype AstNode =
  AstNode (ntype: nodeType) (nproperties: "properties option")
          (nchildren: "AstNode list option") (nvalue: "string option")

text \<open>The object literal \<open>{}\<close>.\<close>

definition emptyProps :: properties where
  "emptyProps = \<lparr> level = None, tags = None, ordered = None, language = None,
       blockType = None, name = None, component = None, attrs = None,
       href = None, src = None, alt = None, ref = None \<rparr>"

definition createNode :: "nodeType \<Rightarrow> properties option \<Rightarrow> AstNode list option \<Rightarrow> AstNode" where
  "createNode t props kids = AstNode t props kids None"

definition createTextNode :: "string \<Rightarrow> AstNode" where
  "createTextNode v = AstNode Text None None (Some v)"

section \<open>Inline markup parser\<close>

text \<open>
  The loop of \<open>parseInlineMarkup\<close> keeps the nodes pushed so far and the pending plain text
  \<open>current\<close>. Every opener test that succeeds first flushes \<open>current\<close> into a text leaf:
  \<open>flushWhen\<close> is that step on the pair of the nodes pushed in this iteration and \<open>current\<close>.
\<close>

type_synonym scanState = "AstNode list \<times> string"

definition flushWhen :: "bool \<Rightarrow> scanState \<Rightarrow> scanState" where
  "flushWhen b st =
     (if b \<and> snd st \<noteq> [] then (fst st @ [createTextNode (snd st)], []) else st)"

text \<open>\<open>text[i] === m && text[i + 1] !== ' '\<close>.\<close>

definition opensMarker :: "string \<Rightarrow> nat \<Rightarrow> char \<Rightarrow> bool" where
  "opensMarker text i m \<longleftrightarrow> charAt text i = Some m \<and> charAt text (i + 1) \<noteq> Some CHR '' ''"

text \<open>\<open>url.match(/\.(png|jpg|jpeg|gif|svg|webp)$/i)\<close>.\<close>

definition isImageUrl :: "string \<Rightarrow> bool" where
  "isImageUrl url =
     (\<exists>ext \<in> set [''png'', ''jpg'', ''jpeg'', ''gif'', ''svg'', ''webp''].
        suffix (CHR ''.'' # ext) (map lowerAscii url))"

text \<open>The node built from the text between \<open>[[\<close> and \<open>]]\<close>.\<close>

definition linkNode :: "string \<Rightarrow> AstNode" where
  "linkNode linkContent =
     (let parts = split linkContent '']['';
          url = hd parts;
          description = (if 1 < length parts \<and> parts ! 1 \<noteq> [] then parts ! 1 else url)
      in if isImageUrl url
         then createNode Image (Some (emptyProps\<lparr>src := Some url, alt := Some description\<rparr>)) None
         else createNode Link (Some (emptyProps\<lparr>href := Some url\<rparr>))
                (Some [createTextNode description]))"

text \<open>
  What one iteration of the loop decides at index \<open>i\<close>: a bold node whose content is
  still to be parsed, a finished node, or one more character of plain text. The first
  component is what the iteration pushed before (the flushed text leaf, if any); the
  index is where the scan continues.
\<close>

datatype scanStep =
    PushBold "AstNode list" string nat
  | PushNode "AstNode list" AstNode nat
  | Append "AstNode list" string

text \<open>
  The eight \<open>if\<close> blocks of the loop body, last to first; each falls through to the next
  when its opener test fails or no closing marker is found.
\<close>

definition blockLineBreak :: "string \<Rightarrow> nat \<Rightarrow> scanState \<Rightarrow> scanStep" where
  "blockLineBreak text i st =
     (let isBreak = (substring text i (i + 2) = [CHR 0x5C, CHR 0x5C]);
          st' = flushWhen isBreak st in
      if isBreak then PushNode (fst st') (createNode LineBreak (Some emptyProps) None) (i + 2)
      else Append (fst st') (snd st' @ [text ! i]))"

definition blockFootnote :: "string \<Rightarrow> nat \<Rightarrow> scanState \<Rightarrow> scanStep" where
  "blockFootnote text i st =
     (let isFn = (substring text i (i + 4) = ''[fn:'');
          st' = flushWhen isFn st in
      if isFn \<and> indexOf text '']'' (i + 4) \<noteq> None then
        (let end = the (indexOf text '']'' (i + 4));
             r = substring text (i + 4) end
         in PushNode (fst st') (createNode Footnote (Some (emptyProps\<lparr>ref := Some r\<rparr>)) None)
              (end + 1))
      else blockLineBreak text i st')"

definition blockLink :: "string \<Rightarrow> nat \<Rightarrow> scanState \<Rightarrow> scanStep" where
  "blockLink text i st =
     (let isLink = (substring text i (i + 2) = ''[['');
          st' = flushWhen isLink st in
      if isLink \<and> indexOf text '']]'' (i + 2) \<noteq> None then
        (let end = the (indexOf text '']]'' (i + 2));
             linkContent = substring text (i + 2) end
         in PushNode (fst st') (linkNode linkContent) (end + 2))
      else blockFootnote text i st')"

definition blockStrike :: "string \<Rightarrow> nat \<Rightarrow> scanState \<Rightarrow> scanStep" where
  "blockStrike text i st =
     (let st' = flushWhen (opensMarker text i CHR ''+'') st in
      if opensMarker text i CHR ''+'' \<and> indexOf text ''+'' (i + 1) \<noteq> None then
        (let end = the (indexOf text ''+'' (i + 1));
             content = substring text (i + 1) end
         in PushNode (fst st')
              (createNode Strike (Some emptyProps) (Some [createTextNode content])) (end + 1))
      else blockLink text i st')"

definition blockCode :: "string \<Rightarrow> nat \<Rightarrow> scanState \<Rightarrow> scanStep" where
  "blockCode text i st =
     (let isCode = (opensMarker text i CHR ''~'' \<or> opensMarker text i CHR ''='');
          marker = text ! i;
          st' = flushWhen isCode st in
      if isCode \<and> indexOf text [marker] (i + 1) \<noteq> None then
        (let end = the (indexOf text [marker] (i + 1));
             content = substring text (i + 1) end
         in PushNode (fst st')
              (createNode (if marker = CHR ''~'' then Code else Verbatim) (Some emptyProps)
                 (Some [createTextNode content])) (end + 1))
      else blockStrike text i st')"

definition blockUnderline :: "string \<Rightarrow> nat \<Rightarrow> scanState \<Rightarrow> scanStep" where
  "blockUnderline text i st =
     (let st' = flushWhen (opensMarker text i CHR ''_'') st in
      if opensMarker text i CHR ''_'' \<and> indexOf text ''_'' (i + 1) \<noteq> None then
        (let end = the (indexOf text ''_'' (i + 1));
             content = substring text (i + 1) end
         in PushNode (fst st')
              (createNode Underline (Some emptyProps) (Some [createTextNode content])) (end + 1))
      else blockCode text i st')"

definition blockItalic :: "string \<Rightarrow> nat \<Rightarrow> scanState \<Rightarrow> scanStep" where
  "blockItalic text i st =
     (let st' = flushWhen (opensMarker text i CHR ''/'') st in
      if opensMarker text i CHR ''/'' \<and> indexOf text ''/'' (i + 1) \<noteq> None then
        (let end = the (indexOf text ''/'' (i + 1));
             content = substring text (i + 1) end
         in PushNode (fst st')
              (createNode Italic (Some emptyProps) (Some [createTextNode content])) (end + 1))
      else blockUnderline text i st')"

definition blockBold :: "string \<Rightarrow> nat \<Rightarrow> scanState \<Rightarrow> scanStep" where
  "blockBold text i st =
     (let st' = flushWhen (opensMarker text i CHR ''*'') st in
      if opensMarker text i CHR ''*'' \<and> indexOf text ''*'' (i + 1) \<noteq> None then
        (let end = the (indexOf text ''*'' (i + 1));
             content = substring text (i + 1) end
         in PushBold (fst st') content (end + 1))
      else blockItalic text i st')"

text \<open>
  Progress of one iteration from index \<open>i\<close>: the scan continues at a larger index, and
  the content handed to the recursive call is shorter than the text being scanned. (The
  plain-text step continues at \<open>i + 1\<close> in the loop itself.)
\<close>

definition advances :: "string \<Rightarrow> nat \<Rightarrow> scanStep \<Rightarrow> bool" where
  "advances text i r =
     (case r of PushBold pre content j \<Rightarrow> i < j \<and> length content < length text
      | PushNode pre node j \<Rightarrow> i < j
      | Append pre cur \<Rightarrow> True)"

lemma findSub_bound: "findSub pat s = Some k \<Longrightarrow> k + length pat \<le> length s"
  by (induction s arbitrary: k) (auto split: if_splits dest: prefix_length_le)

lemma indexOf_bounds:
  "indexOf s pat from = Some e \<Longrightarrow> pat \<noteq> [] \<Longrightarrow> from \<le> e \<and> e + length pat \<le> length s"
  by (cases "from \<le> length s")
     (auto simp: indexOf_def Let_def min_def dest!: findSub_bound split: if_splits)

lemma indexOf_Cons_bounds:
  "indexOf s (c # cs) from = Some e \<Longrightarrow> from \<le> e \<and> e + length cs < length s"
  using indexOf_bounds[of s "c # cs" "from" e] by simp

lemma length_substring_le: "a \<le> b \<Longrightarrow> length (substring s a b) \<le> length s - a"
  by (simp add: substring_def Let_def min_def max_def)

lemma advances_PushNode_the:
  "indexOf t (c # cs) k \<noteq> None \<Longrightarrow> i < k \<Longrightarrow>
     advances t i (PushNode pre node (Suc (the (indexOf t (c # cs) k))))"
  "indexOf t (c # cs) k \<noteq> None \<Longrightarrow> i < k \<Longrightarrow>
     advances t i (PushNode pre node (Suc (Suc (the (indexOf t (c # cs) k)))))"
  using indexOf_Cons_bounds[of t c cs k] by (auto simp: advances_def)

lemma advances_PushBold_the:
  "indexOf t (c # cs) (Suc i) \<noteq> None \<Longrightarrow> i < length t \<Longrightarrow>
     advances t i (PushBold pre (substring t (Suc i) (the (indexOf t (c # cs) (Suc i))))
        (Suc (the (indexOf t (c # cs) (Suc i)))))"
  using indexOf_Cons_bounds[of t c cs "Suc i"]
  using length_substring_le[of "Suc i" "the (indexOf t (c # cs) (Suc i))" t]
  by (auto simp: advances_def)

lemma advances_blockLineBreak: "advances t i (blockLineBreak t i st)"
  by (simp add: blockLineBreak_def advances_def Let_def)

lemma advances_blockFootnote: "advances t i (blockFootnote t i st)"
  by (simp add: blockFootnote_def Let_def advances_PushNode_the advances_blockLineBreak
        del: not_None_eq)

lemma advances_blockLink: "advances t i (blockLink t i st)"
  by (simp add: blockLink_def Let_def advances_PushNode_the advances_blockFootnote
        del: not_None_eq)

lemma advances_blockStrike: "advances t i (blockStrike t i st)"
  by (simp add: blockStrike_def Let_def advances_PushNode_the advances_blockLink
        del: not_None_eq)

lemma advances_blockCode: "advances t i (blockCode t i st)"
  by (simp add: blockCode_def Let_def advances_PushNode_the advances_blockStrike
        del: not_None_eq)

lemma advances_blockUnderline: "advances t i (blockUnderline t i st)"
  by (simp add: blockUnderline_def Let_def advances_PushNode_the advances_blockCode
        del: not_None_eq)

lemma advances_blockItalic: "advances t i (blockItalic t i st)"
  by (simp add: blockItalic_def Let_def advances_PushNode_the advances_blockUnderline
        del: not_None_eq)

lemma advances_blockBold: "i < length t \<Longrightarrow> advances t i (blockBold t i st)"
  by (simp add: blockBold_def Let_def advances_PushBold_the advances_blockItalic
        del: not_None_eq)

text \<open>
  The loop. \<open>nodes.push(x)\<close> followed by the rest of the loop is \<open>x\<close> in front of what the
  rest of the loop pushes; the bold branch calls the parser on the content between the
  two markers.
\<close>

function parseInlineFrom :: "string \<Rightarrow> nat \<Rightarrow> string \<Rightarrow> AstNode list" where
  "parseInlineFrom text i current =
    (if \<not> i < length text then fst (flushWhen True ([], current))
     else case blockBold text i ([], current) of
        PushBold pre content j \<Rightarrow>
          pre @ createNode Bold (Some emptyProps) (Some (parseInlineFrom content 0 []))
            # parseInlineFrom text j []
      | PushNode pre node j \<Rightarrow> pre @ node # parseInlineFrom text j []
      | Append pre current' \<Rightarrow> pre @ parseInlineFrom text (i + 1) current')"
  by pat_completeness auto

lemma parseInlineFrom_total: "All parseInlineFrom_dom"
proof (relation "measures [\<lambda>(t, i, current). length t, \<lambda>(t, i, current). length t - i]")
  show "wf (measures [\<lambda>(t, i, current). length t, \<lambda>(t, i, current). length t - i])"
    by simp
next
  fix t :: string and i current pre content j
  assume "\<not> \<not> i < length t" "blockBold t i ([], current) = PushBold pre content j"
  with advances_blockBold[of i t "([], current)"]
  show "((content, 0, []), t, i, current)
          \<in> measures [\<lambda>(t, i, current). length t, \<lambda>(t, i, current). length t - i]"
    by (simp add: advances_def)
next
  fix t :: string and i current pre content j
  assume "\<not> \<not> i < length t" "blockBold t i ([], current) = PushBold pre content j"
  with advances_blockBold[of i t "([], current)"]
  show "((t, j, []), t, i, current)
          \<in> measures [\<lambda>(t, i, current). length t, \<lambda>(t, i, current). length t - i]"
    by (auto simp add: advances_def)
next
  fix t :: string and i current pre node j
  assume "\<not> \<not> i < length t" "blockBold t i ([], current) = PushNode pre node j"
  with advances_blockBold[of i t "([], current)"]
  show "((t, j, []), t, i, current)
          \<in> measures [\<lambda>(t, i, current). length t, \<lambda>(t, i, current). length t - i]"
    by (auto simp add: advances_def)
next
  fix t :: string and i and current current' :: string
  assume "\<not> \<not> i < length t"
  then show "((t, i + 1, current'), t, i, current)
          \<in> measures [\<lambda>(t, i, current). length t, \<lambda>(t, i, current). length t - i]"
    by auto
qed

termination parseInlineFrom
  by (rule parseInlineFrom_total)

definition parseInlineMarkup :: "string \<Rightarrow> AstNode list" where
  "parseInlineMarkup text = parseInlineFrom text 0 []"

declare parseInlineFrom.simps [simp del]

text \<open>
  An opener at index \<open>i\<close> with no closing marker behind it: the opener test of one of the
  blocks holds and its \<open>indexOf\<close> finds nothing.
\<close>

definition unmatchedOpener :: "string \<Rightarrow> nat \<Rightarrow> bool" where
  "unmatchedOpener text i \<longleftrightarrow>
     (opensMarker text i CHR ''*'' \<and> indexOf text ''*'' (i + 1) = None)
   \<or> (opensMarker text i CHR ''/'' \<and> indexOf text ''/'' (i + 1) = None)
   \<or> (opensMarker text i CHR ''_'' \<and> indexOf text ''_'' (i + 1) = None)
   \<or> (opensMarker text i CHR ''~'' \<and> indexOf text ''~'' (i + 1) = None)
   \<or> (opensMarker text i CHR ''='' \<and> indexOf text ''='' (i + 1) = None)
   \<or> (opensMarker text i CHR ''+'' \<and> indexOf text ''+'' (i + 1) = None)
   \<or> (substring text i (i + 2) = ''[['' \<and> indexOf text '']]'' (i + 2) = None)
   \<or> (substring text i (i + 4) = ''[fn:'' \<and> indexOf text '']'' (i + 4) = None)"

text \<open>
  The state of the loop when it begins an iteration at index \<open>k\<close>: the nodes pushed so far
  and the pending text. None when no iteration begins at \<open>k\<close>, because a node pushed
  earlier took the characters up to an index behind \<open>k\<close>. The loop is followed from the
  index \<open>i\<close> with the nodes and the pending text that it has there.
\<close>

function scanStateAt ::
  "string \<Rightarrow> nat \<Rightarrow> AstNode list \<Rightarrow> string \<Rightarrow> nat \<Rightarrow> (AstNode list \<times> string) option" where
  "scanStateAt text k nodes current i =
     (if i = k then Some (nodes, current)
      else if \<not> i < length text \<or> k < i then None
      else case blockBold text i ([], current) of
          PushBold pre content j \<Rightarrow>
            scanStateAt text k
              (nodes @ pre @ [createNode Bold (Some emptyProps) (Some (parseInlineFrom content 0 []))])
              [] j
        | PushNode pre node j \<Rightarrow> scanStateAt text k (nodes @ pre @ [node]) [] j
        | Append pre current' \<Rightarrow> scanStateAt text k (nodes @ pre) current' (i + 1))"
  by pat_completeness auto
termination
proof (relation "measure (\<lambda>(t, k, nodes, current, i). length t - i)")
  show "wf (measure (\<lambda>(t, k, nodes, current, i). length t - i))" by simp
next
  fix t :: string and k nodes current i pre content j
  assume "\<not> (\<not> i < length t \<or> k < i)" "blockBold t i ([], current) = PushBold pre content j"
  with advances_blockBold[of i t "([], current)"]
  show "((t, k, nodes @ pre @ [createNode Bold (Some emptyProps) (Some (parseInlineFrom content 0 []))], [], j),
          t, k, nodes, current, i) \<in> measure (\<lambda>(t, k, nodes, current, i). length t - i)"
    by (auto simp: advances_def)
next
  fix t :: string and k nodes current i pre node j
  assume "\<not> (\<not> i < length t \<or> k < i)" "blockBold t i ([], current) = PushNode pre node j"
  with advances_blockBold[of i t "([], current)"]
  show "((t, k, nodes @ pre @ [node], [], j), t, k, nodes, current, i)
          \<in> measure (\<lambda>(t, k, nodes, current, i). length t - i)"
    by (auto simp: advances_def)
next
  fix t :: string and k nodes current i pre and current' :: string
  assume "\<not> (\<not> i < length t \<or> k < i)"
  then show "((t, k, nodes @ pre, current', i + 1), t, k, nodes, current, i)
          \<in> measure (\<lambda>(t, k, nodes, current, i). length t - i)"
    by auto
qed

declare scanStateAt.simps [simp del]

text \<open>
  The results that one iteration can have at index \<open>i\<close>, from the state \<open>st\<close>: one rule
  for each branch of the loop body that pushes a node, and one for the plain-text step.
\<close>

inductive scanResult :: "string \<Rightarrow> nat \<Rightarrow> scanState \<Rightarrow> scanStep \<Rightarrow> bool"
  for t :: string and i :: nat and st :: scanState where
  bold:
    "opensMarker t i CHR ''*'' \<Longrightarrow> indexOf t ''*'' (i + 1) = Some e \<Longrightarrow>
     scanResult t i st (PushBold (fst (flushWhen True st)) (substring t (i + 1) e) (e + 1))"
| simple:
    "opensMarker t i m \<Longrightarrow> indexOf t [m] (i + 1) = Some e \<Longrightarrow>
     m \<in> {CHR ''/'', CHR ''_'', CHR ''~'', CHR ''='', CHR ''+''} \<Longrightarrow>
     ty \<in> {Italic, Underline, Code, Verbatim, Strike} \<Longrightarrow>
     scanResult t i st
       (PushNode (fst (flushWhen True st))
          (createNode ty (Some emptyProps) (Some [createTextNode (substring t (i + 1) e)]))
          (e + 1))"
| link:
    "substring t i (i + 2) = ''[['' \<Longrightarrow> indexOf t '']]'' (i + 2) = Some e \<Longrightarrow>
     scanResult t i st (PushNode (fst (flushWhen True st)) (linkNode (substring t (i + 2) e)) (e + 2))"
| footnote:
    "substring t i (i + 4) = ''[fn:'' \<Longrightarrow> indexOf t '']'' (i + 4) = Some e \<Longrightarrow>
     scanResult t i st
       (PushNode (fst (flushWhen True st))
          (createNode Footnote (Some (emptyProps\<lparr>ref := Some (substring t (i + 4) e)\<rparr>)) None)
          (e + 1))"
| lineBreak:
    "substring t i (i + 2) = [CHR 0x5C, CHR 0x5C] \<Longrightarrow>
     scanResult t i st
       (PushNode (fst (flushWhen True st)) (createNode LineBreak (Some emptyProps) None) (i + 2))"
| plain:
    "(pre = fst st \<and> cur' = snd st @ [t ! i]) \<or> (pre = fst (flushWhen True st) \<and> cur' = [t ! i]) \<Longrightarrow>
     scanResult t i st (Append pre cur')"

section \<open>Lexer\<close>

datatype TokenType =
    HEADING | LIST_ITEM | CODE_BLOCK_START | CODE_BLOCK_END | BLOCK_START | BLOCK_END
  | TABLE_ROW | DRAWER_START | DRAWER_END | SHORTCODE | PARAGRAPH | BLANK | TEXT

record Token =
  ttype :: TokenType
  tvalue :: string
  tline :: nat
  tindent :: nat
  tproperties :: "properties option"

text \<open>
  The regular expressions of the lexer, each as the function that recognises the same
  strings and returns the same groups. A greedy quantifier over a character class takes
  the longest run (\<open>takeWhile\<close>) wherever the next item of the expression cannot start
  with a character of that class, which is the case in every expression below; the dot
  refuses line terminators, so a group \<open>(.*)$\<close> matches only a rest without them.
\<close>

text \<open>\<open>/^(\*+)\s+(.*)$/\<close>: the asterisks and the heading text.\<close>

definition matchHeading :: "string \<Rightarrow> (string \<times> string) option" where
  "matchHeading s =
     (let stars = takeWhile (\<lambda>c. c = CHR ''*'') s;
          r = dropWhile (\<lambda>c. c = CHR ''*'') s;
          ws = takeWhile isSpace r;
          rest = dropWhile isSpace r
      in if stars \<noteq> [] \<and> ws \<noteq> [] \<and> \<not> (\<exists>c \<in> set rest. isLineTerminator c)
         then Some (stars, rest) else None)"

text \<open>\<open>/^#\+BEGIN_SRC\s+(\w+)/i\<close>: the language.\<close>

definition matchSrcLanguage :: "string \<Rightarrow> string option" where
  "matchSrcLanguage s =
     (if startsWithCI s ''#+BEGIN_SRC'' then
        (let r = drop (length ''#+BEGIN_SRC'') s;
             ws = takeWhile isSpace r;
             w = takeWhile isWord (dropWhile isSpace r)
         in if ws \<noteq> [] \<and> w \<noteq> [] then Some w else None)
      else None)"

text \<open>\<open>/^#\+BEGIN_(\w+)/i\<close> and \<open>/^#\+END_(\w+)/i\<close>, for the prefix \<open>p\<close>: the block type.\<close>

definition matchBlockMarker :: "string \<Rightarrow> string \<Rightarrow> string option" where
  "matchBlockMarker p s =
     (if startsWithCI s p then
        (let w = takeWhile isWord (drop (length p) s) in if w \<noteq> [] then Some w else None)
      else None)"

text \<open>\<open>s.slice(1, -1)\<close>, on strings and on arrays.\<close>

definition sliceInner :: "'a list \<Rightarrow> 'a list" where
  "sliceInner xs = butlast (tl xs)"

text \<open>\<open>/^:(\w+):$/\<close>.\<close>

definition matchDrawer :: "string \<Rightarrow> bool" where
  "matchDrawer s \<longleftrightarrow>
     3 \<le> length s \<and> hd s = CHR '':'' \<and> last s = CHR '':'' \<and> (\<forall>c \<in> set (sliceInner s). isWord c)"

text \<open>\<open>/^([-+*]|\d+[.)])\s+(.*)$/\<close>: the bullet and the item text.\<close>

definition matchList :: "string \<Rightarrow> (string \<times> string) option" where
  "matchList s =
     (let digits = takeWhile isDigit s;
          r1 = dropWhile isDigit s;
          bullet =
            (if s \<noteq> [] \<and> hd s \<in> {CHR ''-'', CHR ''+'', CHR ''*''} then Some [hd s]
             else if digits \<noteq> [] \<and> r1 \<noteq> [] \<and> hd r1 \<in> {CHR ''.'', CHR '')''}
                  then Some (digits @ [hd r1])
             else None)
      in case bullet of
           None \<Rightarrow> None
         | Some b \<Rightarrow>
             (let r = drop (length b) s;
                  ws = takeWhile isSpace r;
                  rest = dropWhile isSpace r
              in if ws \<noteq> [] \<and> \<not> (\<exists>c \<in> set rest. isLineTerminator c)
                 then Some (b, rest) else None))"

text \<open>\<open>/^\d+[.)]/.test(bullet)\<close>.\<close>

definition isOrderedBullet :: "string \<Rightarrow> bool" where
  "isOrderedBullet b \<longleftrightarrow>
     takeWhile isDigit b \<noteq> [] \<and> dropWhile isDigit b \<noteq> []
     \<and> hd (dropWhile isDigit b) \<in> {CHR ''.'', CHR '')''}"

text \<open>
  The tail \<open>(.*)>\}\}\<close> of the shortcode expression: some \<open>>}}\<close> is reached over
  characters that are not line terminators.
\<close>

fun reachesClose :: "string \<Rightarrow> bool" where
  "reachesClose [] = False"
| "reachesClose (c # cs) =
     (prefix ''>}}'' (c # cs) \<or> (\<not> isLineTerminator c \<and> reachesClose cs))"

text \<open>\<open>/^\{\{<\s*(\w+)(.*)>\}\}/\<close>: the component name.\<close>

definition matchShortcode :: "string \<Rightarrow> string option" where
  "matchShortcode s =
     (if startsWith s ''{{<'' then
        (let r = dropWhile isSpace (drop 3 s);
             w = takeWhile isWord r
         in if w \<noteq> [] \<and> reachesClose (dropWhile isWord r) then Some w else None)
      else None)"

definition mkToken :: "TokenType \<Rightarrow> string \<Rightarrow> nat \<Rightarrow> nat \<Rightarrow> properties option \<Rightarrow> Token" where
  "mkToken t v l ind props =
     \<lparr> ttype = t, tvalue = v, tline = l, tindent = ind, tproperties = props \<rparr>"

text \<open>The body of the loop of \<open>tokenize\<close>: the token of line \<open>i\<close>.\<close>

definition tokenizeLine :: "nat \<Rightarrow> string \<Rightarrow> Token" where
  "tokenizeLine i line =
     (let trimmed = trim line;
          indent = length line - length (trimStart line)
      in if trimmed = [] then mkToken BLANK [] i indent None
      else case matchHeading trimmed of
        Some (stars, txt) \<Rightarrow>
          mkToken HEADING txt i indent (Some (emptyProps\<lparr>level := Some (int (length stars))\<rparr>))
      | None \<Rightarrow>
      if startsWithCI trimmed ''#+BEGIN_SRC'' then
        mkToken CODE_BLOCK_START [] i indent
          (Some (emptyProps\<lparr>language :=
             Some (case matchSrcLanguage trimmed of Some w \<Rightarrow> w | None \<Rightarrow> [])\<rparr>))
      else if startsWithCI trimmed ''#+END_SRC'' then mkToken CODE_BLOCK_END [] i indent None
      else case matchBlockMarker ''#+BEGIN_'' trimmed of
        Some w \<Rightarrow>
          mkToken BLOCK_START [] i indent (Some (emptyProps\<lparr>blockType := Some (map upperAscii w)\<rparr>))
      | None \<Rightarrow>
      (case matchBlockMarker ''#+END_'' trimmed of
        Some w \<Rightarrow>
          mkToken BLOCK_END [] i indent (Some (emptyProps\<lparr>blockType := Some (map upperAscii w)\<rparr>))
      | None \<Rightarrow>
      if matchDrawer trimmed then
        mkToken DRAWER_START trimmed i indent (Some (emptyProps\<lparr>name := Some (sliceInner trimmed)\<rparr>))
      else if trimmed = '':END:'' then mkToken DRAWER_END [] i indent None
      else if startsWith trimmed ''|'' then mkToken TABLE_ROW trimmed i indent None
      else case matchList trimmed of
        Some (bullet, txt) \<Rightarrow>
          mkToken LIST_ITEM txt i indent (Some (emptyProps\<lparr>ordered := Some (isOrderedBullet bullet)\<rparr>))
      | None \<Rightarrow>
      (case matchShortcode trimmed of
        Some w \<Rightarrow> mkToken SHORTCODE trimmed i indent (Some (emptyProps\<lparr>component := Some w\<rparr>))
      | None \<Rightarrow> mkToken TEXT line i indent None)))"

definition newline :: string where
  "newline = [CHR 0x0A]"

definition tokenize :: "string \<Rightarrow> Token list" where
  "tokenize content = map (\<lambda>(i, line). tokenizeLine i line) (enumerate 0 (split content newline))"

section \<open>Objects\<close>

text \<open>
  A plain JavaScript object with string keys is the list of its own entries in the order
  \<open>Object.entries\<close> gives them: the keys that are array indices first, in ascending order,
  then the other keys in the order of their creation. An assignment to an existing key
  keeps its place. An assignment of a string or a boolean to the key \<open>__proto__\<close> creates
  no entry.
\<close>

type_synonym 'v jsobj = "(string \<times> 'v) list"

definition digitsToInt :: "string \<Rightarrow> int" where
  "digitsToInt s = foldl (\<lambda>n c. 10 * n + int (charCode c - 48)) 0 s"

definition isArrayIndex :: "string \<Rightarrow> bool" where
  "isArrayIndex k \<longleftrightarrow>
     k \<noteq> [] \<and> (\<forall>c \<in> set k. isDigit c) \<and> (hd k \<noteq> CHR ''0'' \<or> length k = 1)
     \<and> digitsToInt k < 4294967295"

fun objInsert :: "string \<Rightarrow> 'v \<Rightarrow> 'v jsobj \<Rightarrow> 'v jsobj" where
  "objInsert k v [] = [(k, v)]"
| "objInsert k v ((k', v') # es) =
     (if isArrayIndex k \<and> (\<not> isArrayIndex k' \<or> digitsToInt k < digitsToInt k')
      then (k, v) # (k', v') # es
      else (k', v') # objInsert k v es)"

definition objSet :: "'v jsobj \<Rightarrow> string \<Rightarrow> 'v \<Rightarrow> 'v jsobj" where
  "objSet obj k v =
     (if k = ''__proto__'' then obj
      else if k \<in> fst ` set obj then map (\<lambda>(k', v'). if k' = k then (k', v) else (k', v')) obj
      else objInsert k v obj)"

definition objGet :: "'v jsobj \<Rightarrow> string \<Rightarrow> 'v option" where
  "objGet obj k = map_of obj k"

text \<open>The spread \<open>{...a, ...b}\<close>.\<close>

definition objSpread :: "'v jsobj \<Rightarrow> 'v jsobj \<Rightarrow> 'v jsobj" where
  "objSpread a b = foldl (\<lambda>obj (k, v). objSet obj k v) a b"

section \<open>Block parser\<close>

text \<open>
  The \<open>while\<close> loops of the block parsers have one shape: from index \<open>i\<close>, as long as
  the token at \<open>i\<close> exists and passes the test, push what the body makes of it and go
  to the next index. The result is what was pushed and the index at which the loop
  stopped.
\<close>

function whileTokens ::
  "(Token \<Rightarrow> bool) \<Rightarrow> (Token \<Rightarrow> 'a list) \<Rightarrow> Token list \<Rightarrow> nat \<Rightarrow> 'a list \<times> nat" where
  "whileTokens P f tokens i =
     (if i < length tokens \<and> P (tokens ! i)
      then (let (xs, e) = whileTokens P f tokens (i + 1) in (f (tokens ! i) @ xs, e))
      else ([], i))"
  by pat_completeness auto
termination
  by (relation "measure (\<lambda>(P, f, tokens, i). length tokens - i)") auto

declare whileTokens.simps [simp del]

text \<open>\<open>text.match(/^(.*?)\s+:([\w:]+):$/)\<close>: the heading content and the tag string.\<close>

definition matchTags :: "string \<Rightarrow> (string \<times> string) option" where
  "matchTags s =
     (let tail = rev (takeWhile (\<lambda>c. \<not> isSpace c) (rev s));
          front = rev (dropWhile (\<lambda>c. \<not> isSpace c) (rev s));
          content = trimEnd front
      in if front \<noteq> [] \<and> 3 \<le> length tail \<and> hd tail = CHR '':'' \<and> last tail = CHR '':''
            \<and> (\<forall>c \<in> set (sliceInner tail). isWord c \<or> c = CHR '':'')
            \<and> \<not> (\<exists>c \<in> set content. isLineTerminator c)
         then Some (content, sliceInner tail) else None)"

definition parseHeading :: "Token \<Rightarrow> AstNode" where
  "parseHeading token =
     (let level = (case tproperties token of
                     None \<Rightarrow> 1
                   | Some p \<Rightarrow> (case level p of None \<Rightarrow> 1 | Some l \<Rightarrow> if l = 0 then 1 else l));
          txt = tvalue token;
          tagMatch = matchTags txt;
          content = (case tagMatch of Some (c, tg) \<Rightarrow> c | None \<Rightarrow> txt);
          tags = (case tagMatch of Some (c, tg) \<Rightarrow> filter (\<lambda>x. x \<noteq> []) (split tg '':'') | None \<Rightarrow> [])
      in createNode Heading (Some (emptyProps\<lparr>level := Some level, tags := Some tags\<rparr>))
           (Some (parseInlineMarkup content)))"

text \<open>
  \<open>parseCodeBlock\<close>, \<open>parseBlock\<close>, \<open>parseList\<close> and \<open>parseDrawer\<close> read a property of
  \<open>tokens[startIndex]\<close> first, which throws a TypeError when there is no such token: None.
\<close>

definition propOf :: "Token \<Rightarrow> (properties \<Rightarrow> 'a option) \<Rightarrow> 'a option" where
  "propOf token field = (case tproperties token of None \<Rightarrow> None | Some p \<Rightarrow> field p)"

definition parseCodeBlock :: "Token list \<Rightarrow> nat \<Rightarrow> (AstNode \<times> int) option" where
  "parseCodeBlock tokens startIndex =
     (if \<not> startIndex < length tokens then None
      else
        let lang = (case propOf (tokens ! startIndex) language of None \<Rightarrow> [] | Some l \<Rightarrow> l);
            (codeLines, i) = whileTokens (\<lambda>t. ttype t \<noteq> CODE_BLOCK_END) (\<lambda>t. [tvalue t])
                               tokens (startIndex + 1)
        in Some (createNode CodeBlock (Some (emptyProps\<lparr>language := Some lang\<rparr>))
                   (Some [createTextNode (join codeLines newline)]),
                 int i))"

definition parseBlock :: "Token list \<Rightarrow> nat \<Rightarrow> (AstNode \<times> int) option" where
  "parseBlock tokens startIndex =
     (if \<not> startIndex < length tokens then None
      else
        let bt = (case propOf (tokens ! startIndex) blockType of
                    None \<Rightarrow> ''QUOTE'' | Some b \<Rightarrow> if b = [] then ''QUOTE'' else b);
            (contentLines, i) = whileTokens (\<lambda>t. ttype t \<noteq> BLOCK_END) (\<lambda>t. [tvalue t])
                                  tokens (startIndex + 1);
            content = join contentLines newline;
            nodeType = (if bt = ''QUOTE'' then Quote
                        else if bt = ''EXAMPLE'' then Example
                        else if bt = ''VERSE'' then Verse
                        else if bt = ''CENTER'' then Center else Quote)
        in Some (createNode nodeType (Some emptyProps) (Some (parseInlineMarkup content)), int i))"

text \<open>\<open>rowValue.match(/^\|[-+:| ]+\|$/)\<close>.\<close>

definition isSeparatorRow :: "string \<Rightarrow> bool" where
  "isSeparatorRow s \<longleftrightarrow>
     3 \<le> length s \<and> hd s = CHR ''|'' \<and> last s = CHR ''|''
     \<and> (\<forall>c \<in> set (sliceInner s). c \<in> {CHR ''-'', CHR ''+'', CHR '':'', CHR ''|'', CHR '' ''})"

definition tableRow :: "string \<Rightarrow> AstNode" where
  "tableRow rowValue =
     (let cells = map trim (sliceInner (split rowValue ''|''));
          cellNodes = map (\<lambda>cell. createNode TableCell (Some emptyProps)
                                     (Some (parseInlineMarkup cell))) cells
      in createNode TableRow (Some emptyProps) (Some cellNodes))"

definition parseTable :: "Token list \<Rightarrow> nat \<Rightarrow> AstNode \<times> int" where
  "parseTable tokens startIndex =
     (let (rows, i) = whileTokens (\<lambda>t. ttype t = TABLE_ROW)
                        (\<lambda>t. if isSeparatorRow (tvalue t) then [] else [tableRow (tvalue t)])
                        tokens startIndex
      in (createNode Table (Some emptyProps) (Some rows), int i - 1))"

definition listItem :: "Token \<Rightarrow> AstNode" where
  "listItem t = createNode ListItem (Some emptyProps) (Some (parseInlineMarkup (tvalue t)))"

definition parseList :: "Token list \<Rightarrow> nat \<Rightarrow> (AstNode \<times> int) option" where
  "parseList tokens startIndex =
     (if \<not> startIndex < length tokens then None
      else
        let ord = (case propOf (tokens ! startIndex) ordered of None \<Rightarrow> False | Some b \<Rightarrow> b);
            baseIndent = tindent (tokens ! startIndex);
            (items, i) = whileTokens (\<lambda>t. ttype t = LIST_ITEM \<and> tindent t = baseIndent)
                           (\<lambda>t. [listItem t]) tokens startIndex
        in Some (createNode List (Some (emptyProps\<lparr>ordered := Some ord\<rparr>)) (Some items),
                 int i - 1))"

definition parseDrawer :: "Token list \<Rightarrow> nat \<Rightarrow> (AstNode option \<times> int) option" where
  "parseDrawer tokens startIndex =
     (if \<not> startIndex < length tokens then None
      else
        let drawerName = (case propOf (tokens ! startIndex) name of None \<Rightarrow> [] | Some n \<Rightarrow> n);
            (contentLines, i) = whileTokens (\<lambda>t. ttype t \<noteq> DRAWER_END) (\<lambda>t. [tvalue t])
                                  tokens (startIndex + 1)
        in if drawerName = ''PROPERTIES'' then Some (None, int i)
           else Some (Some (createNode Drawer (Some (emptyProps\<lparr>name := Some drawerName\<rparr>))
                              (Some [createTextNode (join contentLines newline)])),
                      int i))"

text \<open>
  The lazy tail \<open>(.*?)>\}\}\<close>: the characters ahead of the first \<open>>}}\<close>, none of them a
  line terminator.
\<close>

fun lazyClose :: "string \<Rightarrow> string option" where
  "lazyClose [] = None"
| "lazyClose (c # cs) =
     (if prefix ''>}}'' (c # cs) then Some []
      else if isLineTerminator c then None
      else map_option (\<lambda>r. c # r) (lazyClose cs))"

text \<open>\<open>/\{\{<\s*(\w+)(.*?)>\}\}/\<close> matched at the start of \<open>s\<close>, and searched for in \<open>s\<close>.\<close>

definition matchShortcodeAt :: "string \<Rightarrow> (string \<times> string) option" where
  "matchShortcodeAt s =
     (if startsWith s ''{{<'' then
        (let r = dropWhile isSpace (drop 3 s);
             w = takeWhile isWord r
         in if w = [] then None
            else map_option (\<lambda>a. (w, a)) (lazyClose (dropWhile isWord r)))
      else None)"

fun searchShortcode :: "string \<Rightarrow> (string \<times> string) option" where
  "searchShortcode [] = None"
| "searchShortcode (c # cs) =
     (case matchShortcodeAt (c # cs) of Some m \<Rightarrow> Some m | None \<Rightarrow> searchShortcode cs)"

text \<open>
  \<open>attrsString.matchAll(/(\w+)="([^"]*)"/g)\<close>: the pairs of key and value, left to right.
\<close>

definition matchAttrAt :: "string \<Rightarrow> ((string \<times> string) \<times> string) option" where
  "matchAttrAt s =
     (let w = takeWhile isWord s;
          r = dropWhile isWord s
      in if w \<noteq> [] \<and> prefix [CHR ''='', CHR 0x22] r then
           (let body = drop 2 r;
                v = takeWhile (\<lambda>c. c \<noteq> CHR 0x22) body;
                after = dropWhile (\<lambda>c. c \<noteq> CHR 0x22) body
            in if after = [] then None else Some ((w, v), tl after))
         else None)"

function matchAllAttrs :: "string \<Rightarrow> (string \<times> string) list" where
  "matchAllAttrs s =
     (if s = [] then []
      else case matchAttrAt s of
             Some (kv, after) \<Rightarrow> kv # matchAllAttrs after
           | None \<Rightarrow> matchAllAttrs (tl s))"
  by pat_completeness auto

lemma matchAttrAt_shorter: "matchAttrAt s = Some (kv, after) \<Longrightarrow> length after < length s"
proof -
  assume a: "matchAttrAt s = Some (kv, after)"
  define r where "r = dropWhile isWord s"
  define body where "body = drop 2 r"
  from a have "after = tl (dropWhile (\<lambda>c. c \<noteq> CHR 0x22) body)"
    and ne: "dropWhile (\<lambda>c. c \<noteq> CHR 0x22) body \<noteq> []"
    by (auto simp: matchAttrAt_def Let_def r_def body_def split: if_splits)
  then have "length after < length (dropWhile (\<lambda>c. c \<noteq> CHR 0x22) body)"
    by (cases "dropWhile (\<lambda>c. c \<noteq> CHR 0x22) body") auto
  also have "\<dots> \<le> length body" by (rule length_dropWhile_le)
  also have "\<dots> \<le> length r" by (simp add: body_def)
  also have "\<dots> \<le> length s" unfolding r_def by (rule length_dropWhile_le)
  finally show ?thesis .
qed

termination matchAllAttrs
  by (relation "measure length") (auto dest: matchAttrAt_shorter)

declare matchAllAttrs.simps [simp del]

definition parseShortcode :: "Token \<Rightarrow> AstNode" where
  "parseShortcode token =
     (case searchShortcode (tvalue token) of
        None \<Rightarrow> createTextNode (tvalue token)
      | Some (cname, rawAttrs) \<Rightarrow>
          (let attrsString = trim rawAttrs;
               attrMap = foldl (\<lambda>obj (k, v). objSet obj k v) [] (matchAllAttrs attrsString)
           in createNode Shortcode
                (Some (emptyProps\<lparr>component := Some cname, attrs := Some attrMap\<rparr>)) None))"

definition parseParagraph :: "Token list \<Rightarrow> nat \<Rightarrow> AstNode option \<times> int" where
  "parseParagraph tokens startIndex =
     (let (lines, i) = whileTokens (\<lambda>t. ttype t = TEXT) (\<lambda>t. [trim (tvalue t)]) tokens startIndex
      in if length lines = 0 then (None, int i - 1)
         else (Some (createNode Paragraph (Some emptyProps)
                       (Some (parseInlineMarkup (join lines '' '')))),
               int i - 1))"

lemma whileTokens_ge: "i \<le> snd (whileTokens P f tokens i)"
proof (induction P f tokens i rule: whileTokens.induct)
  case (1 P f tokens i)
  show ?case
  proof (cases "i < length tokens \<and> P (tokens ! i)")
    case True
    with 1 have "i + 1 \<le> snd (whileTokens P f tokens (i + 1))" by simp
    with True show ?thesis
      by (subst whileTokens.simps) (simp add: case_prod_unfold Let_def)
  next
    case False
    then show ?thesis by (subst whileTokens.simps) auto
  qed
qed

lemma whileTokens_gt:
  "i < length tokens \<Longrightarrow> P (tokens ! i) \<Longrightarrow> i < snd (whileTokens P f tokens i)"
  using whileTokens_ge[of "i + 1" P f tokens]
  by (subst whileTokens.simps) (simp add: case_prod_unfold Let_def)

lemma parseCodeBlock_end: "parseCodeBlock tokens i = Some (node, e) \<Longrightarrow> int i < e"
  using whileTokens_ge[of "i + 1" "\<lambda>t. ttype t \<noteq> CODE_BLOCK_END" "\<lambda>t. [tvalue t]" tokens]
  by (auto simp: parseCodeBlock_def Let_def case_prod_unfold split: if_splits)

lemma parseBlock_end: "parseBlock tokens i = Some (node, e) \<Longrightarrow> int i < e"
  using whileTokens_ge[of "i + 1" "\<lambda>t. ttype t \<noteq> BLOCK_END" "\<lambda>t. [tvalue t]" tokens]
  by (auto simp: parseBlock_def Let_def case_prod_unfold split: if_splits)

lemma parseDrawer_end: "parseDrawer tokens i = Some (node, e) \<Longrightarrow> int i < e"
  using whileTokens_ge[of "i + 1" "\<lambda>t. ttype t \<noteq> DRAWER_END" "\<lambda>t. [tvalue t]" tokens]
  by (auto simp: parseDrawer_def Let_def case_prod_unfold split: if_splits)

lemma parseTable_end:
  "i < length tokens \<Longrightarrow> ttype (tokens ! i) = TABLE_ROW \<Longrightarrow> int i \<le> snd (parseTable tokens i)"
  using whileTokens_gt[of i tokens "\<lambda>t. ttype t = TABLE_ROW"]
  by (auto simp: parseTable_def Let_def case_prod_unfold)

lemma parseParagraph_end:
  "i < length tokens \<Longrightarrow> ttype (tokens ! i) = TEXT \<Longrightarrow> int i \<le> snd (parseParagraph tokens i)"
  using whileTokens_gt[of i tokens "\<lambda>t. ttype t = TEXT"]
  by (auto simp: parseParagraph_def Let_def case_prod_unfold)

lemma parseList_end:
  "parseList tokens i = Some (node, e) \<Longrightarrow> ttype (tokens ! i) = LIST_ITEM \<Longrightarrow> int i \<le> e"
  using whileTokens_gt[of i tokens "\<lambda>t. ttype t = LIST_ITEM \<and> tindent t = tindent (tokens ! i)"]
  by (auto simp: parseList_def Let_def case_prod_unfold split: if_splits)

text \<open>
  The loop of \<open>parseTokens\<close> from index \<open>i\<close>; None when a block parser throws.
\<close>

function parseTokensFrom :: "Token list \<Rightarrow> nat \<Rightarrow> AstNode list option" where
  "parseTokensFrom tokens i =
     (if \<not> i < length tokens then Some []
      else case ttype (tokens ! i) of
        HEADING \<Rightarrow>
          map_option (\<lambda>ns. parseHeading (tokens ! i) # ns) (parseTokensFrom tokens (i + 1))
      | CODE_BLOCK_START \<Rightarrow>
          (case parseCodeBlock tokens i of
             None \<Rightarrow> None
           | Some (node, endIndex) \<Rightarrow>
               map_option (\<lambda>ns. node # ns) (parseTokensFrom tokens (nat (endIndex + 1))))
      | BLOCK_START \<Rightarrow>
          (case parseBlock tokens i of
             None \<Rightarrow> None
           | Some (node, endIndex) \<Rightarrow>
               map_option (\<lambda>ns. node # ns) (parseTokensFrom tokens (nat (endIndex + 1))))
      | TABLE_ROW \<Rightarrow>
          map_option (\<lambda>ns. fst (parseTable tokens i) # ns)
            (parseTokensFrom tokens (nat (snd (parseTable tokens i) + 1)))
      | LIST_ITEM \<Rightarrow>
          (case parseList tokens i of
             None \<Rightarrow> None
           | Some (node, endIndex) \<Rightarrow>
               map_option (\<lambda>ns. node # ns) (parseTokensFrom tokens (nat (endIndex + 1))))
      | DRAWER_START \<Rightarrow>
          (case parseDrawer tokens i of
             None \<Rightarrow> None
           | Some (node, endIndex) \<Rightarrow>
               map_option (\<lambda>ns. case node of None \<Rightarrow> ns | Some n \<Rightarrow> n # ns)
                 (parseTokensFrom tokens (nat (endIndex + 1))))
      | SHORTCODE \<Rightarrow>
          map_option (\<lambda>ns. parseShortcode (tokens ! i) # ns) (parseTokensFrom tokens (i + 1))
      | TEXT \<Rightarrow>
          map_option (\<lambda>ns. case fst (parseParagraph tokens i) of None \<Rightarrow> ns | Some n \<Rightarrow> n # ns)
            (parseTokensFrom tokens (nat (snd (parseParagraph tokens i) + 1)))
      | BLANK \<Rightarrow> parseTokensFrom tokens (i + 1)
      | _ \<Rightarrow> parseTokensFrom tokens (i + 1))"
  by pat_completeness auto
termination
proof (relation "measure (\<lambda>(tokens, i). length tokens - i)", goal_cases)
  case 1
  show ?case by simp
next
  case (3 tokens i x2 node endIndex)
  with parseList_end[of tokens i node endIndex] show ?case by auto
next
  case (4 tokens i x2 node endIndex)
  with parseCodeBlock_end[of tokens i node endIndex] show ?case by auto
next
  case (6 tokens i x2 node endIndex)
  with parseBlock_end[of tokens i node endIndex] show ?case by auto
next
  case (8 tokens i)
  with parseTable_end[of i tokens] show ?case by auto
next
  case (9 tokens i x2 node endIndex)
  with parseDrawer_end[of tokens i node endIndex] show ?case by auto
next
  case (14 tokens i)
  with parseParagraph_end[of i tokens] show ?case by auto
qed auto

declare parseTokensFrom.simps [simp del]

definition parseTokens :: "Token list \<Rightarrow> AstNode list option" where
  "parseTokens tokens = parseTokensFrom tokens 0"

text \<open>
  The test of the loop of \<open>parseList\<close> started at \<open>startIndex\<close>: a list item at the
  indent of the opening item.
\<close>

definition sameList :: "Token list \<Rightarrow> nat \<Rightarrow> Token \<Rightarrow> bool" where
  "sameList tokens startIndex t \<longleftrightarrow>
     ttype t = LIST_ITEM \<and> tindent t = tindent (tokens ! startIndex)"

section \<open>Metadata\<close>

text \<open>
  A number is an integer or NaN (the result of \<open>parseInt\<close> on a string without digits).
  The values of the \<open>options\<close> object are booleans, numbers and strings.
\<close>

datatype jsnum = Num int | NaN

datatype optValue = OBool bool | ONum jsnum | OStr string

text \<open>
  The interface \<open>OrgMetadata\<close>; the field \<open>x\<close> of the interface is \<open>md_x\<close>, and None is
  \<open>undefined\<close>.
\<close>

record OrgMetadata =
  md_title :: "string option"
  md_author :: "string option"
  md_date :: "string option"
  md_email :: "string option"
  md_description :: "string option"
  md_keywords :: "string list option"
  md_language :: "string option"
  md_category :: "string option"
  md_tags :: "string list option"
  md_options :: "optValue jsobj option"
  md_properties :: "string jsobj option"
  md_slug :: "string option"
  md_coverImage :: "string option"
  md_canonical :: "string option"
  md_readingTime :: "int option"
  md_wordCount :: "int option"
  md_excerpt :: "string option"
  md_ogTitle :: "string option"
  md_ogDescription :: "string option"
  md_ogImage :: "string option"
  md_ogType :: "string option"
  md_twitterCard :: "string option"
  md_twitterSite :: "string option"
  md_twitterCreator :: "string option"
  md_themeColor :: "string option"
  md_robots :: "string option"

text \<open>The initial object \<open>{ options: {}, properties: {}, tags: [], keywords: [] }\<close>.\<close>

definition initialMetadata :: OrgMetadata where
  "initialMetadata =
     \<lparr> md_title = None, md_author = None, md_date = None, md_email = None,
       md_description = None, md_keywords = Some [], md_language = None, md_category = None,
       md_tags = Some [], md_options = Some [], md_properties = Some [], md_slug = None,
       md_coverImage = None, md_canonical = None, md_readingTime = None, md_wordCount = None,
       md_excerpt = None, md_ogTitle = None, md_ogDescription = None, md_ogImage = None,
       md_ogType = None, md_twitterCard = None, md_twitterSite = None,
       md_twitterCreator = None, md_themeColor = None, md_robots = None \<rparr>"

text \<open>
  \<open>/^:(\w+):\s*(.*)$/\<close> and \<open>/^#\+(\w+):\s*(.*)$/i\<close>: after the prefix \<open>p\<close>, a key of word
  characters, a colon, white space, and a value without line terminators.
\<close>

definition matchKeyValue :: "string \<Rightarrow> string \<Rightarrow> (string \<times> string) option" where
  "matchKeyValue p s =
     (if startsWith s p then
        (let r = drop (length p) s;
             k = takeWhile isWord r;
             r' = dropWhile isWord r;
             v = dropWhile isSpace (tl r')
         in if k \<noteq> [] \<and> r' \<noteq> [] \<and> hd r' = CHR '':'' \<and> \<not> (\<exists>c \<in> set v. isLineTerminator c)
            then Some (k, v) else None)
      else None)"

text \<open>\<open>value.match(/:(\w+)/g)\<close> with the colons removed: the file tags.\<close>

function parseFileTags :: "string \<Rightarrow> string list" where
  "parseFileTags s =
     (if s = [] then []
      else if hd s = CHR '':'' \<and> takeWhile isWord (tl s) \<noteq> []
           then takeWhile isWord (tl s) # parseFileTags (dropWhile isWord (tl s))
           else parseFileTags (tl s))"
  by pat_completeness auto
termination
  by (relation "measure length")
     (auto intro: le_less_trans[OF length_dropWhile_le] simp: less_Suc_eq_le)

declare parseFileTags.simps [simp del]

text \<open>\<open>optionsString.match(/(\w+):(\S+)/g)\<close>: the pairs of key and raw value.\<close>

definition matchOptionAt :: "string \<Rightarrow> ((string \<times> string) \<times> string) option" where
  "matchOptionAt s =
     (let k = takeWhile isWord s;
          r = dropWhile isWord s
      in if k \<noteq> [] \<and> r \<noteq> [] \<and> hd r = CHR '':''
            \<and> takeWhile (\<lambda>c. \<not> isSpace c) (tl r) \<noteq> []
         then Some ((k, takeWhile (\<lambda>c. \<not> isSpace c) (tl r)),
                    dropWhile (\<lambda>c. \<not> isSpace c) (tl r))
         else None)"

lemma matchOptionAt_shorter: "matchOptionAt s = Some (kv, after) \<Longrightarrow> length after < length s"
proof -
  assume a: "matchOptionAt s = Some (kv, after)"
  define r where "r = dropWhile isWord s"
  from a have ne: "r \<noteq> []" and af: "after = dropWhile (\<lambda>c. \<not> isSpace c) (tl r)"
    by (auto simp: matchOptionAt_def Let_def r_def split: if_splits)
  have "length after \<le> length (tl r)" unfolding af by (rule length_dropWhile_le)
  also from ne have "\<dots> < length r" by (cases r) auto
  also have "\<dots> \<le> length s" unfolding r_def by (rule length_dropWhile_le)
  finally show ?thesis .
qed

function matchAllOptions :: "string \<Rightarrow> (string \<times> string) list" where
  "matchAllOptions s =
     (if s = [] then []
      else case matchOptionAt s of
             Some (kv, after) \<Rightarrow> kv # matchAllOptions after
           | None \<Rightarrow> matchAllOptions (tl s))"
  by pat_completeness auto
termination
  by (relation "measure length") (auto dest: matchOptionAt_shorter)

declare matchAllOptions.simps [simp del]

text \<open>
  \<open>Number.parseInt(value, 10)\<close> on a string without leading white space. The result is
  the integer that the digits denote; the program's number is a double, which is that
  integer up to \<open>2^53\<close> and the nearest double beyond, so the model is exact for the
  digit strings that denote at most \<open>2^53\<close>.
\<close>

definition parseInt :: "string \<Rightarrow> jsnum" where
  "parseInt s =
     (let neg = (s \<noteq> [] \<and> hd s = CHR ''-'');
          body = (if s \<noteq> [] \<and> hd s \<in> {CHR ''-'', CHR ''+''} then tl s else s);
          ds = takeWhile isDigit body
      in if ds = [] then NaN
         else Num (if neg then - digitsToInt ds else digitsToInt ds))"

definition nilOrT :: "string \<Rightarrow> optValue \<Rightarrow> optValue" where
  "nilOrT v other = (if v = ''nil'' then OBool False else if v = ''t'' then OBool True else other)"

text \<open>
  One iteration of the loop of \<open>parseOptions\<close>, for the matched key and the raw value, whose
  part before its first colon is the value (\<open>part.split(":")\<close>).
\<close>

definition setOption :: "optValue jsobj \<Rightarrow> string \<times> string \<Rightarrow> optValue jsobj" where
  "setOption opts kv =
     (let key = fst kv;
          v = takeWhile (\<lambda>c. c \<noteq> CHR '':'') (snd kv);
          lk = map lowerAscii key
      in if lk = ''toc'' then objSet opts ''toc'' (nilOrT v (ONum (parseInt v)))
         else if lk = ''num'' then objSet opts ''num'' (OBool (v \<noteq> ''nil''))
         else if lk = ''date'' then objSet opts ''date'' (OBool (v \<noteq> ''nil''))
         else if lk = ''h'' then objSet opts ''H'' (ONum (parseInt v))
         else if lk = ''author'' then objSet opts ''author'' (OBool (v \<noteq> ''nil''))
         else if lk = ''email'' then objSet opts ''email'' (OBool (v \<noteq> ''nil''))
         else if lk = ''title'' then objSet opts ''title'' (OBool (v \<noteq> ''nil''))
         else if lk = ''_'' then objSet opts ''subscript'' (OBool (v \<noteq> ''nil''))
         else if lk = ''^'' then objSet opts ''superscript'' (OBool (v \<noteq> ''nil''))
         else if lk = ''tex'' then objSet opts ''tex'' (OBool (v \<noteq> ''nil''))
         else objSet opts key (nilOrT v (OStr v)))"

definition parseOptions :: "string \<Rightarrow> optValue jsobj" where
  "parseOptions optionsString = foldl setOption [] (matchAllOptions optionsString)"

definition orEmpty :: "'v jsobj option \<Rightarrow> 'v jsobj" where
  "orEmpty obj = (case obj of None \<Rightarrow> [] | Some x \<Rightarrow> x)"

text \<open>The \<open>switch\<close> over the upper-cased key of a metadata line.\<close>

definition setMetadata :: "string \<Rightarrow> string \<Rightarrow> OrgMetadata \<Rightarrow> OrgMetadata" where
  "setMetadata key v md =
     (if key = ''TITLE'' then md\<lparr>md_title := Some v\<rparr>
      else if key = ''AUTHOR'' then md\<lparr>md_author := Some v\<rparr>
      else if key = ''DATE'' then md\<lparr>md_date := Some v\<rparr>
      else if key = ''EMAIL'' then md\<lparr>md_email := Some v\<rparr>
      else if key = ''DESCRIPTION'' then md\<lparr>md_description := Some v\<rparr>
      else if key = ''KEYWORDS'' then md\<lparr>md_keywords := Some (map trim (split v '',''))\<rparr>
      else if key = ''LANGUAGE'' then md\<lparr>md_language := Some v\<rparr>
      else if key = ''CATEGORY'' then md\<lparr>md_category := Some v\<rparr>
      else if key = ''FILETAGS'' then md\<lparr>md_tags := Some (parseFileTags v)\<rparr>
      else if key = ''OPTIONS''
        then md\<lparr>md_options := Some (objSpread (orEmpty (md_options md)) (parseOptions v))\<rparr>
      else if key = ''CANONICAL'' then md\<lparr>md_canonical := Some v\<rparr>
      else if key = ''COVER_IMAGE'' then md\<lparr>md_coverImage := Some v\<rparr>
      else if key = ''OG_IMAGE'' then md\<lparr>md_ogImage := Some v\<rparr>
      else if key = ''OG_TITLE'' then md\<lparr>md_ogTitle := Some v\<rparr>
      else if key = ''OG_DESCRIPTION'' then md\<lparr>md_ogDescription := Some v\<rparr>
      else if key = ''OG_TYPE'' then md\<lparr>md_ogType := Some v\<rparr>
      else if key = ''TWITTER_CARD'' then md\<lparr>md_twitterCard := Some v\<rparr>
      else if key = ''TWITTER_SITE'' then md\<lparr>md_twitterSite := Some v\<rparr>
      else if key = ''TWITTER_CREATOR'' then md\<lparr>md_twitterCreator := Some v\<rparr>
      else if key = ''THEME_COLOR'' then md\<lparr>md_themeColor := Some v\<rparr>
      else if key = ''ROBOTS'' then md\<lparr>md_robots := Some v\<rparr>
      else md\<lparr>md_properties := Some (objSet (orEmpty (md_properties md)) key v)\<rparr>)"

text \<open>
  The loop of \<open>extractMetadata\<close> from line \<open>i\<close>, with the drawer flag, the properties
  collected from drawers and the metadata so far; the result is the metadata and the
  index at which the loop stopped.
\<close>

function extractLoop ::
  "string list \<Rightarrow> nat \<Rightarrow> bool \<Rightarrow> string jsobj \<Rightarrow> OrgMetadata \<Rightarrow> OrgMetadata \<times> nat" where
  "extractLoop lines i inPropertyDrawer propertyDrawerProps md =
     (if \<not> i < length lines then (md, i)
      else
        let line = trim (lines ! i) in
        if line = '':PROPERTIES:'' then extractLoop lines (i + 1) True propertyDrawerProps md
        else if line = '':END:'' \<and> inPropertyDrawer then
          extractLoop lines (i + 1) False propertyDrawerProps
            (md\<lparr>md_properties := Some (objSpread (orEmpty (md_properties md)) propertyDrawerProps)\<rparr>)
        else if inPropertyDrawer then
          extractLoop lines (i + 1) inPropertyDrawer
            (case matchKeyValue '':'' line of
               Some (k, v) \<Rightarrow> objSet propertyDrawerProps k v
             | None \<Rightarrow> propertyDrawerProps)
            md
        else case matchKeyValue ''#+'' line of
          Some (k, v) \<Rightarrow>
            extractLoop lines (i + 1) inPropertyDrawer propertyDrawerProps
              (setMetadata (map upperAscii k) (trim v) md)
        | None \<Rightarrow>
            if line \<noteq> [] \<and> \<not> startsWith line ''#'' \<and> \<not> startsWith line '':'' then (md, i)
            else extractLoop lines (i + 1) inPropertyDrawer propertyDrawerProps md)"
  by pat_completeness auto
termination
  by (relation "measure (\<lambda>(lines, i, d, p, md). length lines - i)") auto

declare extractLoop.simps [simp del]

text \<open>
  The test at which the loop breaks: the trimmed line is not empty and starts with
  neither \<open>#\<close> nor a colon.
\<close>

definition stopsExtraction :: "string \<Rightarrow> bool" where
  "stopsExtraction l \<longleftrightarrow>
     trim l \<noteq> [] \<and> \<not> startsWith (trim l) ''#'' \<and> \<not> startsWith (trim l) '':''"

text \<open>
  The drawer flag of the loop: what one line makes of it, and its value when the loop,
  started at the first line, reads the line at index \<open>k\<close>.
\<close>

definition drawerStep :: "bool \<Rightarrow> string \<Rightarrow> bool" where
  "drawerStep inPropertyDrawer l =
     (if trim l = '':PROPERTIES:'' then True
      else if trim l = '':END:'' \<and> inPropertyDrawer then False
      else inPropertyDrawer)"

definition inDrawerAt :: "string list \<Rightarrow> nat \<Rightarrow> bool" where
  "inDrawerAt lines k = foldl drawerStep False (take k lines)"

text \<open>
  Two metadata objects with the same derived fields: slug, excerpt, reading time and
  word count.
\<close>

definition derivedEqual :: "OrgMetadata \<Rightarrow> OrgMetadata \<Rightarrow> bool" where
  "derivedEqual a b \<longleftrightarrow>
     md_slug a = md_slug b \<and> md_excerpt a = md_excerpt b
     \<and> md_readingTime a = md_readingTime b \<and> md_wordCount a = md_wordCount b"

text \<open>
  \<open>extractMetadata\<close>. The slug is made by the package \<open>slugify\<close>, which is not part of
  the repository: the function \<open>slugifyLib\<close> stands for it.
\<close>

definition extractMetadata :: "(string \<Rightarrow> string) \<Rightarrow> string list \<Rightarrow> OrgMetadata \<times> nat" where
  "extractMetadata slugifyLib lines =
     (let (md, i) = extractLoop lines 0 False [] initialMetadata;
          md' = (case md_title md of
                   None \<Rightarrow> md
                 | Some t \<Rightarrow> if t = [] then md else md\<lparr>md_slug := Some (slugifyLib t)\<rparr>)
      in (md', i))"

text \<open>The number of pieces of \<open>text.split(/\s+/)\<close>: one more than the runs of white space.\<close>

fun countRuns :: "(char \<Rightarrow> bool) \<Rightarrow> string \<Rightarrow> nat" where
  "countRuns P [] = 0"
| "countRuns P [c] = (if P c then 1 else 0)"
| "countRuns P (c # d # cs) = (if P c \<and> \<not> P d then 1 else 0) + countRuns P (d # cs)"

definition splitWhitespaceLength :: "string \<Rightarrow> int" where
  "splitWhitespaceLength s = int (countRuns isSpace s) + 1"

definition calculateReadingTime :: "string \<Rightarrow> int" where
  "calculateReadingTime s = (splitWhitespaceLength s + 199) div 200"

text \<open>\<open>s.replace(re, rep)\<close> for a global expression \<open>c+\<close> over a character class.\<close>

fun replaceRuns :: "(char \<Rightarrow> bool) \<Rightarrow> string \<Rightarrow> string \<Rightarrow> string" where
  "replaceRuns P rep [] = []"
| "replaceRuns P rep [c] = (if P c then rep else [c])"
| "replaceRuns P rep (c # d # cs) =
     (if P c then (if P d then replaceRuns P rep (d # cs) else rep @ replaceRuns P rep (d # cs))
      else c # replaceRuns P rep (d # cs))"

definition extractExcerpt :: "string \<Rightarrow> nat \<Rightarrow> string" where
  "extractExcerpt s maxLength =
     (let cleaned = trim (replaceRuns isSpace '' '' s)
      in if length cleaned \<le> maxLength then cleaned
         else trim (substring cleaned 0 maxLength) @ ''...'')"

section \<open>Documents\<close>

text \<open>The interface \<open>OrgAst\<close>: a node of type \<open>document\<close> with the metadata and the children.\<close>

record OrgAst =
  metadata :: OrgMetadata
  children :: "AstNode list"

definition createDocument :: "OrgMetadata \<Rightarrow> AstNode list \<Rightarrow> OrgAst" where
  "createDocument md kids = \<lparr> metadata = md, children = kids \<rparr>"

text \<open>
  \<open>extractPlainText\<close>: a value that is not empty and a children array that is present each
  add their text and a space.
\<close>

fun extractPlainText :: "AstNode list \<Rightarrow> string"
  and extractPlainTextNode :: "AstNode \<Rightarrow> string" where
  "extractPlainText [] = []"
| "extractPlainText (node # nodes) = extractPlainTextNode node @ extractPlainText nodes"
| "extractPlainTextNode (AstNode t p kids v) =
     (case v of None \<Rightarrow> [] | Some x \<Rightarrow> if x = [] then [] else x @ '' '')
     @ (case kids of None \<Rightarrow> [] | Some cs \<Rightarrow> extractPlainText cs @ '' '')"

text \<open>
  \<open>parse\<close>. None is the TypeError of a block parser called without a start token, which
  the loop of \<open>parseTokens\<close> never does.
\<close>

definition parse :: "(string \<Rightarrow> string) \<Rightarrow> string \<Rightarrow> OrgAst option" where
  "parse slugifyLib content =
     (let lines = split content newline;
          (md, contentStartLine) = extractMetadata slugifyLib lines;
          contentLines = drop contentStartLine lines;
          tokens = tokenize (join contentLines newline)
      in case parseTokens tokens of
           None \<Rightarrow> None
         | Some kids \<Rightarrow>
             (let plainText = extractPlainText kids;
                  md1 = md\<lparr>md_readingTime := Some (calculateReadingTime plainText),
                           md_wordCount := Some (splitWhitespaceLength plainText)\<rparr>;
                  noExcerpt = (md_excerpt md1 = None \<or> md_excerpt md1 = Some []);
                  hasDescription = (md_description md1 \<noteq> None \<and> md_description md1 \<noteq> Some []);
                  md2 = (if noExcerpt \<and> hasDescription then md1\<lparr>md_excerpt := md_description md1\<rparr>
                         else if noExcerpt then md1\<lparr>md_excerpt := Some (extractExcerpt plainText 160)\<rparr>
                         else md1)
              in Some (createDocument md2 kids)))"

section \<open>HTML renderer\<close>

text \<open>\<open>s.replace(/c/g, rep)\<close> for one character \<open>c\<close>.\<close>

definition replaceChar :: "char \<Rightarrow> string \<Rightarrow> string \<Rightarrow> string" where
  "replaceChar c rep s = concat (map (\<lambda>x. if x = c then rep else [x]) s)"

text \<open>\<open>escapeHtml\<close> of the renderer: five replacements, the ampersand first.\<close>

definition escapeHtml :: "string \<Rightarrow> string" where
  \<open>escapeHtml s =
     replaceChar (CHR 0x27) ''&#039;''
       (replaceChar (CHR 0x22) ''&quot;''
         (replaceChar CHR ''>'' ''&gt;''
           (replaceChar CHR ''<'' ''&lt;''
             (replaceChar CHR ''&'' ''&amp;'' s))))\<close>

text \<open>
  \<open>escapeHtml\<close> of the table of contents and of the highlighter fallback: the two
  functions have the same body, with three replacements.
\<close>

definition escapeHtml3 :: "string \<Rightarrow> string" where
  \<open>escapeHtml3 s =
     replaceChar CHR ''>'' ''&gt;''
       (replaceChar CHR ''<'' ''&lt;''
         (replaceChar CHR ''&'' ''&amp;'' s))\<close>

text \<open>\<open>slugify\<close> of the renderer.\<close>

definition slugify :: "string \<Rightarrow> string" where
  "slugify s =
     trim (replaceRuns (\<lambda>c. c = CHR ''-'') ''-''
       (replaceRuns isSpace ''-''
         (filter (\<lambda>c. isWord c \<or> isSpace c \<or> c = CHR ''-'') (toLowerCase s))))"

text \<open>The decimal digits of an integer, as a template literal prints a number.\<close>

fun showNat :: "nat \<Rightarrow> string" where
  "showNat n = (if n < 10 then [char_of (48 + n)] else showNat (n div 10) @ [char_of (48 + n mod 10)])"

declare showNat.simps [simp del]

definition showInt :: "int \<Rightarrow> string" where
  "showInt k = (if k < 0 then CHR ''-'' # showNat (nat (- k)) else showNat (nat k))"

record HeadingRec =
  hLevel :: int
  hText :: string
  hId :: string

text \<open>
  \<open>generateToc\<close>. One heading of the loop: the two inner \<open>while\<close> loops open or close
  lists until the current level is the level of the heading.
\<close>

definition exceedsDepth :: "int \<Rightarrow> jsnum \<Rightarrow> bool" where
  "exceedsDepth l maxDepth = (case maxDepth of Num m \<Rightarrow> l > m | NaN \<Rightarrow> False)"

definition tocStep :: "jsnum \<Rightarrow> string \<times> int \<Rightarrow> HeadingRec \<Rightarrow> string \<times> int" where
  \<open>tocStep maxDepth st heading =
     (if exceedsDepth (hLevel heading) maxDepth then st
      else (fst st
              @ concat (replicate (nat (hLevel heading - snd st)) ''<ul>'')
              @ concat (replicate (nat (snd st - hLevel heading)) ''</ul>'')
              @ ''<li><a href="#'' @ hId heading @ ''">'' @ escapeHtml3 (hText heading)
              @ ''</a></li>'',
            hLevel heading))\<close>

definition generateToc :: "HeadingRec list \<Rightarrow> jsnum \<Rightarrow> string" where
  \<open>generateToc headings maxDepth =
     (if headings = [] then []
      else
        let first = hLevel (hd headings);
            st = foldl (tocStep maxDepth) (''<nav class="toc"><h2>Table of Contents</h2><ul>'', first)
                   headings
        in fst st @ concat (replicate (nat (snd st - first)) ''</ul>'') @ ''</ul></nav>'' @ newline)\<close>

text \<open>
  \<open>highlightCode\<close>. The highlighter of the package \<open>shiki\<close> is not part of the repository:
  \<open>codeToHtml\<close> stands for it, with None when it throws.
\<close>

definition highlightCode :: "(string \<Rightarrow> string \<Rightarrow> string option) \<Rightarrow> string \<Rightarrow> string \<Rightarrow> string" where
  \<open>highlightCode codeToHtml code lang =
     (case codeToHtml code (if lang = [] then ''text'' else lang) of
        Some h \<Rightarrow> h
      | None \<Rightarrow> ''<pre><code>'' @ escapeHtml3 code @ ''</code></pre>'')\<close>

record RenderOptions =
  sanitize :: "bool option"
  codeHighlight :: "bool option"

record RenderContext =
  options :: RenderOptions
  footnotes :: "(string \<times> string) list"
  footnoteCounter :: int
  headings :: "HeadingRec list"

text \<open>\<open>map.set(k, v)\<close> on a Map, which keeps the order of insertion.\<close>

definition mapSet :: "(string \<times> string) list \<Rightarrow> string \<Rightarrow> string \<Rightarrow> (string \<times> string) list" where
  "mapSet m k v =
     (if k \<in> fst ` set m then map (\<lambda>(k', v'). if k' = k then (k', v) else (k', v')) m
      else m @ [(k, v)])"

text \<open>\<open>String(x ?? '')\<close> for an optional string.\<close>

definition orEmptyString :: "string option \<Rightarrow> string" where
  "orEmptyString x = (case x of None \<Rightarrow> [] | Some s \<Rightarrow> s)"

definition propString :: "AstNode \<Rightarrow> (properties \<Rightarrow> string option) \<Rightarrow> string" where
  "propString node field =
     (case nproperties node of None \<Rightarrow> [] | Some p \<Rightarrow> orEmptyString (field p))"

fun renderChildrenSync :: "AstNode \<Rightarrow> string" where
  \<open>renderChildrenSync (AstNode t p kids v) =
     (case kids of
        None \<Rightarrow> []
      | Some cs \<Rightarrow>
          concat (map (\<lambda>child.
            if ntype child = Text then escapeHtml (orEmptyString (nvalue child))
            else if ntype child = Bold then ''<strong>'' @ renderChildrenSync child @ ''</strong>''
            else if ntype child = Italic then ''<em>'' @ renderChildrenSync child @ ''</em>''
            else if ntype child = Code then ''<code>'' @ renderChildrenSync child @ ''</code>''
            else if ntype child = Link
              then ''<a href="'' @ escapeHtml (propString child href) @ ''">''
                     @ renderChildrenSync child @ ''</a>''
            else renderChildrenSync child) cs))\<close>

definition renderHeading :: "AstNode \<Rightarrow> RenderContext \<Rightarrow> string \<times> RenderContext" where
  \<open>renderHeading node context =
     (let lvl = min (case nproperties node of
                       None \<Rightarrow> 1
                     | Some p \<Rightarrow> (case level p of None \<Rightarrow> 1 | Some l \<Rightarrow> l)) 6;
          txt = concat (map (\<lambda>c. orEmptyString (nvalue c))
                          (case nchildren node of None \<Rightarrow> [] | Some cs \<Rightarrow> cs));
          ident = slugify txt;
          context' = context\<lparr>headings := headings context
                                 @ [\<lparr>hLevel = lvl, hText = txt, hId = ident\<rparr>]\<rparr>
      in (''<h'' @ showInt lvl @ '' id="'' @ escapeHtml ident @ ''">'' @ renderChildrenSync node
            @ ''</h'' @ showInt lvl @ ''>'' @ newline,
          context'))\<close>

definition renderParagraph :: "AstNode \<Rightarrow> string" where
  \<open>renderParagraph node = ''<p>'' @ renderChildrenSync node @ ''</p>'' @ newline\<close>

text \<open>The entries of the attribute object, joined by spaces.\<close>

definition renderShortcode :: "AstNode \<Rightarrow> string" where
  \<open>renderShortcode node =
     (let cname = propString node component;
          entries = (case nproperties node of
                       None \<Rightarrow> []
                     | Some p \<Rightarrow> (case attrs p of None \<Rightarrow> [] | Some a \<Rightarrow> a));
          attrString = join (map (\<lambda>(k, v). escapeHtml k @ ''="'' @ escapeHtml v @ ''"'') entries) '' ''
      in ''<div data-component="'' @ escapeHtml cname @ ''" '' @ attrString @ ''></div>'' @ newline)\<close>

definition renderLink :: "AstNode \<Rightarrow> string" where
  \<open>renderLink node =
     ''<a href="'' @ escapeHtml (propString node href) @ ''">'' @ renderChildrenSync node @ ''</a>''\<close>

definition renderImage :: "AstNode \<Rightarrow> string" where
  \<open>renderImage node =
     ''<img src="'' @ escapeHtml (propString node src) @ ''" alt="''
       @ escapeHtml (propString node alt) @ ''">''\<close>

definition renderFootnote :: "AstNode \<Rightarrow> RenderContext \<Rightarrow> string \<times> RenderContext" where
  \<open>renderFootnote node context =
     (let r = propString node ref;
          num = footnoteCounter context;
          context' = context\<lparr>footnoteCounter := num + 1,
                               footnotes := mapSet (footnotes context) r (''Footnote '' @ escapeHtml r)\<rparr>
      in (''<sup id="fnref-'' @ escapeHtml r @ ''"><a href="#fn-'' @ escapeHtml r @ ''">''
            @ showInt num @ ''</a></sup>'',
          context'))\<close>

text \<open>
  \<open>renderCodeBlock\<close>, for the code of the first child: highlighted unless the option
  \<open>codeHighlight\<close> is \<open>false\<close>.
\<close>

definition renderCodeBlock ::
  "(string \<Rightarrow> string \<Rightarrow> string option) \<Rightarrow> AstNode \<Rightarrow> RenderContext \<Rightarrow> string" where
  \<open>renderCodeBlock codeToHtml node context =
     (let lang = propString node language;
          code = (case nchildren node of
                    None \<Rightarrow> []
                  | Some cs \<Rightarrow> (case cs of [] \<Rightarrow> [] | c # _ \<Rightarrow> orEmptyString (nvalue c)))
      in if codeHighlight (options context) \<noteq> Some False
         then ''<pre><code class="language-'' @ escapeHtml lang @ ''">''
                @ highlightCode codeToHtml code lang @ ''</code></pre>'' @ newline
         else ''<pre><code class="language-'' @ escapeHtml lang @ ''">''
                @ escapeHtml code @ ''</code></pre>'' @ newline)\<close>

text \<open>
  \<open>renderNode\<close> and \<open>renderChildren\<close>, on the children array of the node; \<open>renderNodes\<close>
  is the loop over the children, which hands the context from each child to the next.
\<close>

fun renderNode ::
    "(string \<Rightarrow> string \<Rightarrow> string option) \<Rightarrow> AstNode \<Rightarrow> RenderContext \<Rightarrow> string \<times> RenderContext"
  and renderChildren ::
    "(string \<Rightarrow> string \<Rightarrow> string option) \<Rightarrow> AstNode list option \<Rightarrow> RenderContext
       \<Rightarrow> string \<times> RenderContext"
  and renderNodes ::
    "(string \<Rightarrow> string \<Rightarrow> string option) \<Rightarrow> AstNode list \<Rightarrow> RenderContext
       \<Rightarrow> string \<times> RenderContext" where
  \<open>renderNode hl (AstNode t p kids v) context =
     (let node = AstNode t p kids v;
          inner = renderChildren hl kids context
      in case t of
        Heading \<Rightarrow> renderHeading node context
      | Paragraph \<Rightarrow> (renderParagraph node, context)
      | List \<Rightarrow>
          (let tag = (if (case p of None \<Rightarrow> False
                              | Some q \<Rightarrow> (case ordered q of None \<Rightarrow> False | Some b \<Rightarrow> b))
                      then ''ol'' else ''ul'')
           in (''<'' @ tag @ ''>'' @ newline @ fst inner @ ''</'' @ tag @ ''>'' @ newline, snd inner))
      | ListItem \<Rightarrow> (''<li>'' @ fst inner @ ''</li>'' @ newline, snd inner)
      | Table \<Rightarrow>
          (''<table>'' @ newline @ ''<tbody>'' @ newline @ fst inner @ ''</tbody>'' @ newline
             @ ''</table>'' @ newline, snd inner)
      | TableRow \<Rightarrow> (''<tr>'' @ newline @ fst inner @ ''</tr>'' @ newline, snd inner)
      | TableCell \<Rightarrow> (''<td>'' @ fst inner @ ''</td>'' @ newline, snd inner)
      | CodeBlock \<Rightarrow> (renderCodeBlock hl node context, context)
      | Quote \<Rightarrow> (''<blockquote>'' @ newline @ fst inner @ ''</blockquote>'' @ newline, snd inner)
      | Example \<Rightarrow> (''<pre class="example">'' @ fst inner @ ''</pre>'' @ newline, snd inner)
      | Verse \<Rightarrow> (''<p class="verse">'' @ fst inner @ ''</p>'' @ newline, snd inner)
      | Center \<Rightarrow> (''<div class="center">'' @ fst inner @ ''</div>'' @ newline, snd inner)
      | Shortcode \<Rightarrow> (renderShortcode node, context)
      | Bold \<Rightarrow> (''<strong>'' @ fst inner @ ''</strong>'', snd inner)
      | Italic \<Rightarrow> (''<em>'' @ fst inner @ ''</em>'', snd inner)
      | Underline \<Rightarrow> (''<u>'' @ fst inner @ ''</u>'', snd inner)
      | Code \<Rightarrow> (''<code>'' @ fst inner @ ''</code>'', snd inner)
      | Verbatim \<Rightarrow> (''<code class="verbatim">'' @ fst inner @ ''</code>'', snd inner)
      | Strike \<Rightarrow> (''<del>'' @ fst inner @ ''</del>'', snd inner)
      | Link \<Rightarrow> (renderLink node, context)
      | Image \<Rightarrow> (renderImage node, context)
      | Footnote \<Rightarrow> renderFootnote node context
      | LineBreak \<Rightarrow> (''<br>'', context)
      | Text \<Rightarrow> (escapeHtml (orEmptyString v), context)
      | _ \<Rightarrow> ([], context))\<close>
| \<open>renderChildren hl None context = ([], context)\<close>
| \<open>renderChildren hl (Some cs) context = renderNodes hl cs context\<close>
| \<open>renderNodes hl [] context = ([], context)\<close>
| \<open>renderNodes hl (child # cs) context =
     (let r1 = renderNode hl child context;
          r2 = renderNodes hl cs (snd r1)
      in (fst r1 @ fst r2, snd r2))\<close>

text \<open>
  \<open>renderToHtml\<close>. The sanitizer is the package \<open>dompurify\<close>, which is not part of the
  repository: \<open>sanitizeHtml\<close> stands for it. \<open>renderParts\<close> is the table of contents,
  the body and the footnotes before they are concatenated. The character of the link
  back from a footnote lies outside the 8-bit strings of this model: \<open>returnArrow\<close> stands
  for it, with three characters that are neither angle brackets nor quotes nor
  ampersands.
\<close>

definition returnArrow :: string where
  "returnArrow = [CHR 0xE2, CHR 0x86, CHR 0xA9]"

definition initialContext :: "RenderOptions \<Rightarrow> RenderContext" where
  "initialContext opts = \<lparr> options = opts, footnotes = [], footnoteCounter = 1, headings = [] \<rparr>"

definition tocOption :: "OrgAst \<Rightarrow> optValue option" where
  "tocOption ast = (case md_options (metadata ast) of None \<Rightarrow> None | Some obj \<Rightarrow> objGet obj ''toc'')"

definition renderParts ::
  "(string \<Rightarrow> string \<Rightarrow> string option) \<Rightarrow> OrgAst \<Rightarrow> RenderOptions \<Rightarrow> string \<times> string \<times> string" where
  \<open>renderParts hl ast opts =
     (let body = renderNodes hl (children ast) (initialContext opts);
          bodyHtml = fst body;
          context = snd body;
          tocEnabled = (tocOption ast \<noteq> Some (OBool False));
          tocHtml = (if tocEnabled \<and> length (headings context) > 0
                     then generateToc (headings context)
                            (case tocOption ast of Some (ONum n) \<Rightarrow> n | _ \<Rightarrow> Num 3)
                     else []);
          footnotesHtml =
            (if length (footnotes context) > 0
             then ''<div class="footnotes"><hr><ol>''
                    @ concat (map (\<lambda>(r, content).
                        ''<li id="fn-'' @ escapeHtml r @ ''">'' @ content @ '' <a href="#fnref-''
                          @ escapeHtml r @ ''">'' @ returnArrow @ ''</a></li>'') (footnotes context))
                    @ ''</ol></div>''
             else [])
      in (tocHtml, bodyHtml, footnotesHtml))\<close>

record RenderResult =
  html :: string
  resultMetadata :: OrgMetadata

definition renderToHtml ::
  "(string \<Rightarrow> string) \<Rightarrow> (string \<Rightarrow> string \<Rightarrow> string option) \<Rightarrow> OrgAst \<Rightarrow> RenderOptions
     \<Rightarrow> RenderResult" where
  "renderToHtml sanitizeHtml hl ast opts =
     (let (tocHtml, bodyHtml, footnotesHtml) = renderParts hl ast opts;
          fullHtml = tocHtml @ bodyHtml @ footnotesHtml;
          finalHtml = (if sanitize opts \<noteq> Some False then sanitizeHtml fullHtml else fullHtml)
      in \<lparr> html = finalHtml, resultMetadata = metadata ast \<rparr>)"

definition defaultOptions :: RenderOptions where
  "defaultOptions = \<lparr> sanitize = None, codeHighlight = None \<rparr>"

section \<open>From text to HTML\<close>

text \<open>
  The first two steps of \<open>org2html\<close>: \<open>parse\<close>, then \<open>renderToHtml\<close> (the third applies
  the page template). \<open>renderDocumentParts\<close> is the same with the three parts of the
  output kept apart.
\<close>

definition renderDocument ::
  "(string \<Rightarrow> string) \<Rightarrow> (string \<Rightarrow> string) \<Rightarrow> (string \<Rightarrow> string \<Rightarrow> string option) \<Rightarrow> string
     \<Rightarrow> RenderOptions \<Rightarrow> RenderResult option" where
  "renderDocument slugifyLib sanitizeHtml hl content opts =
     (case parse slugifyLib content of
        None \<Rightarrow> None
      | Some ast \<Rightarrow> Some (renderToHtml sanitizeHtml hl ast opts))"

definition renderDocumentParts ::
  "(string \<Rightarrow> string) \<Rightarrow> (string \<Rightarrow> string \<Rightarrow> string option) \<Rightarrow> string \<Rightarrow> RenderOptions
     \<Rightarrow> (string \<times> string \<times> string) option" where
  "renderDocumentParts slugifyLib hl content opts =
     (case parse slugifyLib content of
        None \<Rightarrow> None
      | Some ast \<Rightarrow> Some (renderParts hl ast opts))"

text \<open>
  Stand-ins for the three packages, at which closed examples are evaluated: a slug
  function and a sanitizer that return their argument, and a highlighter that throws.
\<close>

definition sameSlug :: "string \<Rightarrow> string" where
  "sameSlug s = s"

definition sameHtml :: "string \<Rightarrow> string" where
  "sameHtml s = s"

definition throwingHighlighter :: "string \<Rightarrow> string \<Rightarrow> string option" where
  "throwingHighlighter code lang = None"

section \<open>Heading levels\<close>

text \<open>
  A tree without heading nodes; a tree whose heading nodes all have a level of at least
  one; a token that, when it is a heading, has such a level; and a render context whose
  heading records all have a level between one and six.
\<close>

fun noHeading :: "AstNode \<Rightarrow> bool" where
  "noHeading (AstNode t p kids v) =
     (t \<noteq> Heading \<and> (case kids of None \<Rightarrow> True | Some cs \<Rightarrow> \<forall>c \<in> set cs. noHeading c))"

fun levelsOk :: "AstNode \<Rightarrow> bool" where
  "levelsOk (AstNode t p kids v) =
     ((t = Heading \<longrightarrow> (\<exists>q l. p = Some q \<and> level q = Some l \<and> 1 \<le> l))
      \<and> (case kids of None \<Rightarrow> True | Some cs \<Rightarrow> \<forall>c \<in> set cs. levelsOk c))"

definition tokenOk :: "Token \<Rightarrow> bool" where
  "tokenOk t \<longleftrightarrow>
     (ttype t = HEADING \<longrightarrow> (\<exists>p l. tproperties t = Some p \<and> level p = Some l \<and> 1 \<le> l))"

definition headingsInRange :: "RenderContext \<Rightarrow> bool" where
  "headingsInRange context \<longleftrightarrow> (\<forall>h \<in> set (headings context). 1 \<le> hLevel h \<and> hLevel h \<le> 6)"

text \<open>The heading node of the line \<open>******* Deep\<close>.\<close>

definition deepHeading :: AstNode where
  "deepHeading = createNode Heading (Some (emptyProps\<lparr>level := Some 7, tags := Some []\<rparr>))
                   (Some [createTextNode ''Deep''])"

section \<open>Escaped and well-formed output\<close>

text \<open>
  A scan of rendered HTML. In text, \<open><\<close> opens a tag and \<open>>\<close> is refused; in a tag, \<open>>\<close>
  closes it, a double quote opens an attribute value and \<open><\<close> is refused; in an
  attribute value, a double quote closes it and both \<open><\<close> and \<open>>\<close> are refused. The strict
  scan also refuses, in text and in an attribute value, a quote and an ampersand that
  does not begin one of the five entities of \<open>escapeHtml\<close> (in text, a double quote as
  well). A string is well formed when the scan goes from text to text, and in escaped
  form when the strict scan does.
\<close>

datatype htmlMode = InText | InTag | InAttr

definition entityAhead :: "string \<Rightarrow> bool" where
  "entityAhead cs \<longleftrightarrow>
     prefix ''amp;'' cs \<or> prefix ''lt;'' cs \<or> prefix ''gt;'' cs \<or> prefix ''quot;'' cs
     \<or> prefix ''#039;'' cs"

fun htmlStep :: "bool \<Rightarrow> htmlMode \<Rightarrow> char \<Rightarrow> string \<Rightarrow> htmlMode option" where
  "htmlStep strict InText c cs =
     (if c = CHR ''<'' then Some InTag
      else if c = CHR ''>'' then None
      else if strict \<and> (c = CHR 0x22 \<or> c = CHR 0x27 \<or> (c = CHR ''&'' \<and> \<not> entityAhead cs))
        then None
      else Some InText)"
| "htmlStep strict InTag c cs =
     (if c = CHR ''>'' then Some InText else if c = CHR ''<'' then None
      else if c = CHR 0x22 then Some InAttr else Some InTag)"
| "htmlStep strict InAttr c cs =
     (if c = CHR 0x22 then Some InTag
      else if c = CHR ''<'' \<or> c = CHR ''>'' then None
      else if strict \<and> (c = CHR 0x27 \<or> (c = CHR ''&'' \<and> \<not> entityAhead cs)) then None
      else Some InAttr)"

fun htmlScan :: "bool \<Rightarrow> htmlMode \<Rightarrow> string \<Rightarrow> htmlMode option" where
  "htmlScan strict m [] = Some m"
| "htmlScan strict m (c # cs) =
     (case htmlStep strict m c cs of None \<Rightarrow> None | Some m' \<Rightarrow> htmlScan strict m' cs)"

definition scans :: "bool \<Rightarrow> string \<Rightarrow> bool" where
  "scans strict s \<longleftrightarrow> htmlScan strict InText s = Some InText"

definition wellFormed :: "string \<Rightarrow> bool" where
  "wellFormed s \<longleftrightarrow> scans False s"

definition escapedHtml :: "string \<Rightarrow> bool" where
  "escapedHtml s \<longleftrightarrow> scans True s"

text \<open>Strings with no character that the scan looks at, and strings without angle brackets.\<close>

definition plainSafe :: "string \<Rightarrow> bool" where
  "plainSafe s \<longleftrightarrow>
     (\<forall>c \<in> set s. c \<noteq> CHR ''<'' \<and> c \<noteq> CHR ''>'' \<and> c \<noteq> CHR 0x22 \<and> c \<noteq> CHR 0x27
        \<and> c \<noteq> CHR ''&'')"

definition textSafe :: "string \<Rightarrow> bool" where
  "textSafe s \<longleftrightarrow> CHR ''<'' \<notin> set s \<and> CHR ''>'' \<notin> set s"

text \<open>
  The escaped form of one character, as a table: the five characters that the renderer
  replaces, each with its entity, and every other character itself.
\<close>

definition escapeChar :: "char \<Rightarrow> string" where
  \<open>escapeChar c =
     (if c = CHR ''&'' then ''&amp;'' else if c = CHR ''<'' then ''&lt;''
      else if c = CHR ''>'' then ''&gt;'' else if c = CHR 0x22 then ''&quot;''
      else if c = CHR 0x27 then ''&#039;'' else [c])\<close>




text \<open>
  The angle brackets of a string in their order; a tree and a document with the value
  of every node removed; and two contexts with the same options, footnotes, footnote
  counter and heading levels, and two render results with the same angle brackets and
  such contexts.
\<close>

definition angleBrackets :: "string \<Rightarrow> string" where
  "angleBrackets s = filter (\<lambda>c. c = CHR ''<'' \<or> c = CHR ''>'') s"

fun withoutText :: "AstNode \<Rightarrow> AstNode" where
  "withoutText (AstNode t p kids v) = AstNode t p (map_option (map withoutText) kids) None"


definition sameFrame :: "RenderContext \<Rightarrow> RenderContext \<Rightarrow> bool" where
  "sameFrame a b \<longleftrightarrow>
     options a = options b \<and> footnotes a = footnotes b \<and> footnoteCounter a = footnoteCounter b
     \<and> map hLevel (headings a) = map hLevel (headings b)"



section \<open>Text of rendered inline markup\<close>

text \<open>
  Stripping the markup of a rendered string: the tags are removed (everything from a
  \<open><\<close> to the next \<open>>\<close>), then the five entities that \<open>escapeHtml\<close> writes are replaced
  by their characters. \<open>decodeFrom\<close> skips the characters of an entity that it has
  just replaced.
\<close>

fun removeTagsFrom :: "bool \<Rightarrow> string \<Rightarrow> string" where
  "removeTagsFrom inTag [] = []"
| "removeTagsFrom inTag (c # cs) =
     (if inTag then removeTagsFrom (c \<noteq> CHR ''>'') cs
      else if c = CHR ''<'' then removeTagsFrom True cs
      else c # removeTagsFrom False cs)"





text \<open>
  The characters that the inline parser reads as markers when there is no bracket in the
  text (the six emphasis markers and the backslash of a line break), a string without
  them, and the relation of an output to an input from which nothing but marker
  characters has been removed: the output is a subsequence of the input, with all the
  other characters of the input.
\<close>

definition isDelimiter :: "char \<Rightarrow> bool" where
  "isDelimiter c \<longleftrightarrow> c \<in> set ''*/_~=+'' \<or> c = CHR 0x5C"

definition visible :: "string \<Rightarrow> string" where
  "visible s = filter (\<lambda>c. \<not> isDelimiter c) s"


section \<open>Facts about the inline parser\<close>

lemma substring_take_drop: "i \<le> j \<Longrightarrow> substring t i j = take (j - i) (drop i t)"
  by (auto simp: substring_def Let_def min_def max_def)

lemma substring_Cons_nth:
  assumes "i \<le> j" "substring t i j = c # cs"
  shows "i < length t \<and> t ! i = c"
proof -
  from assms have e: "take (j - i) (drop i t) = c # cs"
    by (simp add: substring_take_drop)
  then have "drop i t \<noteq> []" by auto
  then have i: "i < length t" by simp
  from e have "hd (take (j - i) (drop i t)) = c" by simp
  moreover from e have "j - i \<noteq> 0" by (cases "j - i") auto
  ultimately have "hd (drop i t) = c" by (cases "j - i") auto
  with i show ?thesis by (simp add: hd_drop_conv_nth)
qed

lemma substring_head_neq:
  "i \<le> j \<Longrightarrow> i < length t \<Longrightarrow> t ! i \<noteq> c \<Longrightarrow> substring t i j \<noteq> c # cs"
  using substring_Cons_nth by blast

lemma blockLineBreak_plain:
  "i < length t \<Longrightarrow> t ! i \<noteq> CHR 0x5C \<Longrightarrow> blockLineBreak t i (ns, cur) = Append ns (cur @ [t ! i])"
  by (simp add: blockLineBreak_def Let_def flushWhen_def substring_head_neq)

definition shaped :: "char \<Rightarrow> scanState \<Rightarrow> scanStep \<Rightarrow> bool" where
  "shaped c st r =
     (case r of PushBold pre content j \<Rightarrow> pre = fst (flushWhen True st)
      | PushNode pre node j \<Rightarrow> pre = fst (flushWhen True st)
      | Append pre cur' \<Rightarrow> (pre = fst st \<and> cur' = snd st @ [c])
                         \<or> (pre = fst (flushWhen True st) \<and> cur' = [c]))"

lemma shaped_flushWhen: "shaped c (flushWhen b st) r \<Longrightarrow> shaped c st r"
  by (cases r) (auto simp: shaped_def flushWhen_def split: if_splits)

lemma shaped_Push:
  "shaped c st (PushNode (fst (flushWhen True st)) n j)"
  "shaped c st (PushBold (fst (flushWhen True st)) x j)"
  by (simp_all add: shaped_def)

lemma shaped_blockLineBreak: "shaped (t ! i) st (blockLineBreak t i st)"
  by (auto simp: blockLineBreak_def Let_def shaped_def flushWhen_def)

lemma shaped_blockFootnote: "shaped (t ! i) st (blockFootnote t i st)"
  by (simp add: blockFootnote_def Let_def shaped_Push shaped_flushWhen[OF shaped_blockLineBreak]
        del: not_None_eq)

lemma shaped_blockLink: "shaped (t ! i) st (blockLink t i st)"
  by (simp add: blockLink_def Let_def shaped_Push shaped_flushWhen[OF shaped_blockFootnote]
        del: not_None_eq)

lemma shaped_blockStrike: "shaped (t ! i) st (blockStrike t i st)"
  by (simp add: blockStrike_def Let_def shaped_Push shaped_flushWhen[OF shaped_blockLink]
        del: not_None_eq)

lemma shaped_blockCode: "shaped (t ! i) st (blockCode t i st)"
  by (simp add: blockCode_def Let_def shaped_Push shaped_flushWhen[OF shaped_blockStrike]
        del: not_None_eq)

lemma shaped_blockUnderline: "shaped (t ! i) st (blockUnderline t i st)"
  by (simp add: blockUnderline_def Let_def shaped_Push shaped_flushWhen[OF shaped_blockCode]
        del: not_None_eq)

lemma shaped_blockItalic: "shaped (t ! i) st (blockItalic t i st)"
  by (simp add: blockItalic_def Let_def shaped_Push shaped_flushWhen[OF shaped_blockUnderline]
        del: not_None_eq)

lemma shaped_blockBold: "shaped (t ! i) st (blockBold t i st)"
  by (simp add: blockBold_def Let_def shaped_Push shaped_flushWhen[OF shaped_blockItalic]
        del: not_None_eq)

lemma createTextNode_self: "\<exists>s. createTextNode current = createTextNode (current @ s)"
  by (rule exI[of _ "[]"]) simp

lemma parseInlineFrom_end:
  "\<not> i < length t \<Longrightarrow> parseInlineFrom t i current = fst (flushWhen True ([], current))"
  by (subst parseInlineFrom.simps) simp

lemma parseInlineFrom_PushBold:
  "i < length t \<Longrightarrow> blockBold t i ([], current) = PushBold pre content j \<Longrightarrow>
   parseInlineFrom t i current =
     pre @ createNode Bold (Some emptyProps) (Some (parseInlineFrom content 0 []))
       # parseInlineFrom t j []"
  by (subst parseInlineFrom.simps) simp

lemma parseInlineFrom_PushNode:
  "i < length t \<Longrightarrow> blockBold t i ([], current) = PushNode pre node j \<Longrightarrow>
   parseInlineFrom t i current = pre @ node # parseInlineFrom t j []"
  by (subst parseInlineFrom.simps) simp

lemma parseInlineFrom_Append:
  "i < length t \<Longrightarrow> blockBold t i ([], current) = Append pre current' \<Longrightarrow>
   parseInlineFrom t i current = pre @ parseInlineFrom t (i + 1) current'"
  by (subst parseInlineFrom.simps) simp

lemma parseInlineFrom_pending_text:
  "current \<noteq> [] \<Longrightarrow> \<exists>s rest. parseInlineFrom t i current = createTextNode (current @ s) # rest"
proof (induction t i current rule: parseInlineFrom.induct)
  case (1 t i current)
  show ?case
  proof (cases "i < length t")
    case False
    with "1.prems" show ?thesis
      by (simp add: parseInlineFrom_end flushWhen_def createTextNode_self)
  next
    case True
    note sh = shaped_blockBold[of t i "([], current)"]
    show ?thesis
    proof (cases "blockBold t i ([], current)")
      case (PushBold pre content j)
      with sh "1.prems" have "pre = [createTextNode current]"
        by (simp add: shaped_def flushWhen_def)
      with parseInlineFrom_PushBold[OF True PushBold] show ?thesis
        by (simp add: createTextNode_self)
    next
      case (PushNode pre node j)
      with sh "1.prems" have "pre = [createTextNode current]"
        by (simp add: shaped_def flushWhen_def)
      with parseInlineFrom_PushNode[OF True PushNode] show ?thesis
        by (simp add: createTextNode_self)
    next
      case (Append pre cur')
      note eq = parseInlineFrom_Append[OF True Append]
      from Append sh "1.prems" have "(pre = [] \<and> cur' = current @ [t ! i])
          \<or> (pre = [createTextNode current] \<and> cur' = [t ! i])"
        by (simp add: shaped_def flushWhen_def)
      then show ?thesis
      proof
        assume a: "pre = [] \<and> cur' = current @ [t ! i]"
        then have "cur' \<noteq> []" by simp
        from "1.IH"(4)[OF _ Append this] True obtain s rest where
          "parseInlineFrom t (i + 1) cur' = createTextNode (cur' @ s) # rest" by auto
        with a eq have "parseInlineFrom t i current = createTextNode (current @ (t ! i # s)) # rest"
          by simp
        then show ?thesis by blast
      next
        assume "pre = [createTextNode current] \<and> cur' = [t ! i]"
        with eq show ?thesis by (simp add: createTextNode_self)
      qed
    qed
  qed
qed

lemmas block_defs = blockBold_def blockItalic_def blockUnderline_def blockCode_def
  blockStrike_def blockLink_def blockFootnote_def

lemma unmatched_marker:
  assumes "opensMarker t i m" "indexOf t [m] (i + 1) = None"
    and "m = CHR ''*'' \<or> m = CHR ''/'' \<or> m = CHR ''_'' \<or> m = CHR ''~'' \<or> m = CHR ''=''
         \<or> m = CHR ''+''"
  shows "blockBold t i ([], cur) = Append (fst (flushWhen True ([], cur))) [t ! i]"
proof -
  from assms have i: "i < length t" and c: "t ! i = m"
    by (auto simp: opensMarker_def charAt_def split: if_splits)
  from assms(1) i c have n: "charAt t (Suc i) \<noteq> Some CHR '' ''"
    by (simp add: opensMarker_def)
  note defs = block_defs blockLineBreak_plain Let_def opensMarker_def charAt_def
          flushWhen_def substring_head_neq
  from assms(3) show ?thesis
  proof (elim disjE)
    assume "m = CHR ''*''" with assms(2) i c n show ?thesis by (simp add: defs)
  next
    assume "m = CHR ''/''" with assms(2) i c n show ?thesis by (simp add: defs)
  next
    assume "m = CHR ''_''" with assms(2) i c n show ?thesis by (simp add: defs)
  next
    assume "m = CHR ''~''" with assms(2) i c n show ?thesis by (simp add: defs)
  next
    assume "m = CHR ''=''" with assms(2) i c n show ?thesis by (simp add: defs)
  next
    assume "m = CHR ''+''" with assms(2) i c n show ?thesis by (simp add: defs)
  qed
qed

lemma unmatched_link:
  assumes "substring t i (i + 2) = ''[[''" "indexOf t '']]'' (i + 2) = None"
  shows "blockBold t i ([], cur) = Append (fst (flushWhen True ([], cur))) [t ! i]"
proof -
  from substring_Cons_nth[OF _ assms(1)] have i: "i < length t" and c: "t ! i = CHR ''[''"
    by auto
  have f: "substring t i (i + 4) \<noteq> ''[fn:''"
  proof
    assume "substring t i (i + 4) = ''[fn:''"
    then have "take 2 (take 4 (drop i t)) = ''[f''" by (simp add: substring_take_drop)
    moreover from assms(1) have "take 2 (drop i t) = ''[[''" by (simp add: substring_take_drop)
    ultimately show False by simp
  qed
  show ?thesis
    using assms i c f
    by (simp add: block_defs blockLineBreak_plain Let_def opensMarker_def charAt_def
          flushWhen_def)
qed

lemma unmatched_footnote:
  assumes "substring t i (i + 4) = ''[fn:''" "indexOf t '']'' (i + 4) = None"
  shows "blockBold t i ([], cur) = Append (fst (flushWhen True ([], cur))) [t ! i]"
proof -
  from substring_Cons_nth[OF _ assms(1)] have i: "i < length t" and c: "t ! i = CHR ''[''"
    by auto
  have f: "substring t i (i + 2) \<noteq> ''[[''"
  proof
    assume "substring t i (i + 2) = ''[[''"
    then have "take 2 (drop i t) = ''[[''" by (simp add: substring_take_drop)
    moreover from assms(1) have "take 2 (take 4 (drop i t)) = ''[f''"
      by (simp add: substring_take_drop)
    ultimately show False by simp
  qed
  show ?thesis
    using assms i c f
    by (simp add: block_defs blockLineBreak_plain Let_def opensMarker_def charAt_def
          flushWhen_def)
qed

lemma flushWhen_idem: "fst (flushWhen True (flushWhen b st)) = fst (flushWhen True st)"
  by (simp add: flushWhen_def)

lemma scanResult_flushWhen:
  assumes "scanResult t i (flushWhen b st) r"
  shows "scanResult t i st r"
  using assms
proof cases
  case (bold e)
  then show ?thesis using scanResult.bold[of t i e st] by (simp add: flushWhen_idem)
next
  case (simple m e ty)
  then show ?thesis using scanResult.simple[of t i m e ty st] by (simp add: flushWhen_idem)
next
  case (link e)
  then show ?thesis using scanResult.link[of t i e st] by (simp add: flushWhen_idem)
next
  case (footnote e)
  then show ?thesis using scanResult.footnote[of t i e st] by (simp add: flushWhen_idem)
next
  case lineBreak
  then show ?thesis using scanResult.lineBreak[of t i st] by (simp add: flushWhen_idem)
next
  case (plain pre cur')
  then have "(pre = fst st \<and> cur' = snd st @ [t ! i])
      \<or> (pre = fst (flushWhen True st) \<and> cur' = [t ! i])"
    by (auto simp: flushWhen_def split: if_splits)
  with plain(1) show ?thesis by (simp add: scanResult.plain)
qed

lemma scanResult_blockLineBreak: "scanResult t i st (blockLineBreak t i st)"
proof (cases "substring t i (i + 2) = [CHR 0x5C, CHR 0x5C]")
  case True
  then show ?thesis
    using scanResult.lineBreak[of t i st] by (simp add: blockLineBreak_def Let_def)
next
  case False
  then show ?thesis
    by (simp add: blockLineBreak_def Let_def flushWhen_def scanResult.plain)
qed

lemma scanResult_blockFootnote: "scanResult t i st (blockFootnote t i st)"
proof (cases "substring t i (i + 4) = ''[fn:'' \<and> indexOf t '']'' (i + 4) \<noteq> None")
  case True
  then obtain e where "indexOf t '']'' (i + 4) = Some e" by auto
  with True scanResult.footnote[of t i e st] show ?thesis
    by (simp add: blockFootnote_def Let_def)
next
  case False
  with scanResult_flushWhen[OF scanResult_blockLineBreak] show ?thesis
    by (auto simp add: blockFootnote_def Let_def)
qed

lemma scanResult_blockLink: "scanResult t i st (blockLink t i st)"
proof (cases "substring t i (i + 2) = ''[['' \<and> indexOf t '']]'' (i + 2) \<noteq> None")
  case True
  then obtain e where "indexOf t '']]'' (i + 2) = Some e" by auto
  with True scanResult.link[of t i e st] show ?thesis
    by (simp add: blockLink_def Let_def)
next
  case False
  with scanResult_flushWhen[OF scanResult_blockFootnote] show ?thesis
    by (auto simp add: blockLink_def Let_def)
qed

lemma scanResult_blockStrike: "scanResult t i st (blockStrike t i st)"
proof (cases "opensMarker t i CHR ''+'' \<and> indexOf t ''+'' (i + 1) \<noteq> None")
  case True
  then obtain e where "indexOf t ''+'' (i + 1) = Some e" by auto
  with True scanResult.simple[of t i "CHR ''+''" e Strike st] show ?thesis
    by (simp add: blockStrike_def Let_def)
next
  case False
  with scanResult_flushWhen[OF scanResult_blockLink] show ?thesis
    by (auto simp add: blockStrike_def Let_def)
qed

lemma scanResult_blockCode: "scanResult t i st (blockCode t i st)"
proof (cases "(opensMarker t i CHR ''~'' \<or> opensMarker t i CHR ''='')
                \<and> indexOf t [t ! i] (i + 1) \<noteq> None")
  case True
  then obtain e where e: "indexOf t [t ! i] (i + 1) = Some e" by auto
  from True have m: "opensMarker t i (t ! i)" "t ! i = CHR ''~'' \<or> t ! i = CHR ''=''"
    by (auto simp: opensMarker_def charAt_def split: if_splits)
  from m(2) have "t ! i \<in> {CHR ''/'', CHR ''_'', CHR ''~'', CHR ''='', CHR ''+''}" by auto
  from scanResult.simple[OF m(1) e this, of "if t ! i = CHR ''~'' then Code else Verbatim" st]
    True e show ?thesis
    by (simp add: blockCode_def Let_def)
next
  case False
  with scanResult_flushWhen[OF scanResult_blockStrike] show ?thesis
    by (auto simp add: blockCode_def Let_def)
qed

lemma scanResult_blockUnderline: "scanResult t i st (blockUnderline t i st)"
proof (cases "opensMarker t i CHR ''_'' \<and> indexOf t ''_'' (i + 1) \<noteq> None")
  case True
  then obtain e where "indexOf t ''_'' (i + 1) = Some e" by auto
  with True scanResult.simple[of t i "CHR ''_''" e Underline st] show ?thesis
    by (simp add: blockUnderline_def Let_def)
next
  case False
  with scanResult_flushWhen[OF scanResult_blockCode] show ?thesis
    by (auto simp add: blockUnderline_def Let_def)
qed

lemma scanResult_blockItalic: "scanResult t i st (blockItalic t i st)"
proof (cases "opensMarker t i CHR ''/'' \<and> indexOf t ''/'' (i + 1) \<noteq> None")
  case True
  then obtain e where "indexOf t ''/'' (i + 1) = Some e" by auto
  with True scanResult.simple[of t i "CHR ''/''" e Italic st] show ?thesis
    by (simp add: blockItalic_def Let_def)
next
  case False
  with scanResult_flushWhen[OF scanResult_blockUnderline] show ?thesis
    by (auto simp add: blockItalic_def Let_def)
qed

lemma scanResult_blockBold: "scanResult t i st (blockBold t i st)"
proof (cases "opensMarker t i CHR ''*'' \<and> indexOf t ''*'' (i + 1) \<noteq> None")
  case True
  then obtain e where "indexOf t ''*'' (i + 1) = Some e" by auto
  with True scanResult.bold[of t i e st] show ?thesis
    by (simp add: blockBold_def Let_def)
next
  case False
  with scanResult_flushWhen[OF scanResult_blockItalic] show ?thesis
    by (auto simp add: blockBold_def Let_def)
qed

lemma scanStateAt_output:
  "scanStateAt t k ns cur i = Some (ns', cur') \<Longrightarrow>
     ns @ parseInlineFrom t i cur = ns' @ parseInlineFrom t k cur'"
proof (induction t k ns cur i rule: scanStateAt.induct)
  case (1 t k ns cur i)
  note eq = scanStateAt.simps[of t k ns cur i]
  show ?case
  proof (cases "i = k")
    case True
    with "1.prems" eq show ?thesis by simp
  next
    case False
    with "1.prems" eq have i: "i < length t" and ki: "\<not> k < i"
      by (auto split: if_splits)
    from False i ki have c: "\<not> (\<not> i < length t \<or> k < i)" by simp
    show ?thesis
    proof (cases "blockBold t i ([], cur)")
      case (PushBold pre content j)
      with "1.prems" eq False c
      have "scanStateAt t k
          (ns @ pre @ [createNode Bold (Some emptyProps) (Some (parseInlineFrom content 0 []))]) [] j
          = Some (ns', cur')" by simp
      from "1.IH"(1)[OF False c PushBold this] parseInlineFrom_PushBold[OF i PushBold]
      show ?thesis by simp
    next
      case (PushNode pre node j)
      with "1.prems" eq False c
      have "scanStateAt t k (ns @ pre @ [node]) [] j = Some (ns', cur')" by simp
      from "1.IH"(2)[OF False c PushNode this] parseInlineFrom_PushNode[OF i PushNode]
      show ?thesis by simp
    next
      case (Append pre cur2)
      with "1.prems" eq False c
      have "scanStateAt t k (ns @ pre) cur2 (i + 1) = Some (ns', cur')" by simp
      from "1.IH"(3)[OF False c Append this] parseInlineFrom_Append[OF i Append]
      show ?thesis by simp
    qed
  qed
qed

lemma unmatched_opener_step:
  assumes "unmatchedOpener text i"
  shows "parseInlineFrom text i current
           = fst (flushWhen True ([], current)) @ parseInlineFrom text (i + 1) [text ! i]
         \<and> (\<exists>s rest. parseInlineFrom text (i + 1) [text ! i]
               = createTextNode (text ! i # s) # rest)"
proof -
  from assms have b: "blockBold text i ([], current)
      = Append (fst (flushWhen True ([], current))) [text ! i]"
    unfolding unmatchedOpener_def
    by (elim disjE conjE) (simp_all add: unmatched_marker unmatched_link unmatched_footnote)
  from assms have i: "i < length text"
    unfolding unmatchedOpener_def
    by (auto simp: opensMarker_def charAt_def split: if_splits dest: substring_Cons_nth[rotated])
  from parseInlineFrom_Append[OF i b] parseInlineFrom_pending_text[of "[text ! i]" "text" "i + 1"]
  show ?thesis by simp
qed
section \<open>Facts about the block parser\<close>

lemma whileTokens_takeWhile:
  "whileTokens P f tokens i =
     (concat (map f (takeWhile P (drop i tokens))), i + length (takeWhile P (drop i tokens)))"
proof (induction P f tokens i rule: whileTokens.induct)
  case (1 P f tokens i)
  show ?case
  proof (cases "i < length tokens \<and> P (tokens ! i)")
    case True
    then have d: "drop i tokens = tokens ! i # drop (i + 1) tokens"
      by (simp add: Cons_nth_drop_Suc)
    from True 1 have "whileTokens P f tokens (i + 1) =
        (concat (map f (takeWhile P (drop (i + 1) tokens))),
         i + 1 + length (takeWhile P (drop (i + 1) tokens)))" by simp
    with True d show ?thesis
      by (subst whileTokens.simps) simp
  next
    case False
    show ?thesis
    proof (cases "i < length tokens")
      case True
      with False have "\<not> P (tokens ! i)" by simp
      moreover from True have "drop i tokens = tokens ! i # drop (i + 1) tokens"
        by (simp add: Cons_nth_drop_Suc)
      ultimately show ?thesis using False by (subst whileTokens.simps) simp
    next
      case False
      then show ?thesis by (subst whileTokens.simps) simp
    qed
  qed
qed


lemma renderDocument_of_parts:
  assumes "renderDocumentParts slugifyLib hl content opts = Some (tocHtml, bodyHtml, footnotesHtml)"
  shows "\<exists>r. renderDocument slugifyLib sanitizeHtml hl content opts = Some r
           \<and> html r = (if sanitize opts \<noteq> Some False
                        then sanitizeHtml (tocHtml @ bodyHtml @ footnotesHtml)
                        else tocHtml @ bodyHtml @ footnotesHtml)"
  using assms
  by (auto simp: renderDocumentParts_def renderDocument_def renderToHtml_def Let_def
      split: option.splits)

section \<open>Facts about the metadata extractor\<close>

lemma setMetadata_derived: "derivedEqual (setMetadata k v md) md"
  by (simp add: setMetadata_def derivedEqual_def)

lemma extractLoop_step:
  assumes "i < length lines"
  shows "(extractLoop lines i d props md = (md, i) \<and> stopsExtraction (lines ! i))
       \<or> (\<exists>d' props' md'. extractLoop lines i d props md = extractLoop lines (i + 1) d' props' md'
             \<and> derivedEqual md' md)"
proof -
  let ?line = "trim (lines ! i)"
  note eq = extractLoop.simps[of lines i d props md]
  have r: "derivedEqual md md" by (simp add: derivedEqual_def)
  consider (a) "?line = '':PROPERTIES:''"
    | (b) "?line \<noteq> '':PROPERTIES:''" "?line = '':END:'' \<and> d"
    | (c) "?line \<noteq> '':PROPERTIES:''" "\<not> (?line = '':END:'' \<and> d)" "d"
    | (d) "?line \<noteq> '':PROPERTIES:''" "\<not> d" "matchKeyValue ''#+'' ?line \<noteq> None"
    | (e) "?line \<noteq> '':PROPERTIES:''" "\<not> d" "matchKeyValue ''#+'' ?line = None"
          "stopsExtraction (lines ! i)"
    | (f) "?line \<noteq> '':PROPERTIES:''" "\<not> d" "matchKeyValue ''#+'' ?line = None"
          "\<not> stopsExtraction (lines ! i)"
    by blast
  then show ?thesis
  proof cases
    case a
    with assms eq have "extractLoop lines i d props md = extractLoop lines (i + 1) True props md"
      by (simp add: Let_def)
    with r show ?thesis by blast
  next
    case b
    let ?md = "md\<lparr>md_properties := Some (objSpread (orEmpty (md_properties md)) props)\<rparr>"
    from b assms eq have "extractLoop lines i d props md = extractLoop lines (i + 1) False props ?md"
      by (simp add: Let_def)
    moreover have "derivedEqual ?md md" by (simp add: derivedEqual_def)
    ultimately show ?thesis by blast
  next
    case c
    let ?p = "(case matchKeyValue '':'' ?line of
                 Some (k, v) \<Rightarrow> objSet props k v | None \<Rightarrow> props)"
    from c assms eq have "extractLoop lines i d props md = extractLoop lines (i + 1) d ?p md"
      by (simp add: Let_def)
    with r show ?thesis by blast
  next
    case d
    then obtain k v where kv: "matchKeyValue ''#+'' ?line = Some (k, v)" by auto
    with d assms eq have "extractLoop lines i d props md
        = extractLoop lines (i + 1) d props (setMetadata (map upperAscii k) (trim v) md)"
      by (simp add: Let_def)
    with setMetadata_derived show ?thesis by blast
  next
    case e
    with assms eq show ?thesis by (simp add: Let_def stopsExtraction_def)
  next
    case f
    with assms eq have "extractLoop lines i d props md = extractLoop lines (i + 1) d props md"
      by (auto simp add: Let_def stopsExtraction_def)
    with r show ?thesis by blast
  qed
qed

lemma extractLoop_stop:
  "i \<le> snd (extractLoop lines i d props md)
   \<and> (snd (extractLoop lines i d props md) < length lines \<longrightarrow>
        stopsExtraction (lines ! snd (extractLoop lines i d props md)))
   \<and> derivedEqual (fst (extractLoop lines i d props md)) md"
proof (induction "length lines - i" arbitrary: i d props md)
  case 0
  then have ni: "\<not> i < length lines" by simp
  then have "extractLoop lines i d props md = (md, i)"
    by (subst extractLoop.simps) simp
  with ni show ?case by (simp add: derivedEqual_def)
next
  case (Suc n)
  then have i: "i < length lines" by simp
  from Suc have n: "n = length lines - (i + 1)" by simp
  from extractLoop_step[OF i, of d props md] show ?case
  proof
    assume "extractLoop lines i d props md = (md, i) \<and> stopsExtraction (lines ! i)"
    then show ?thesis by (simp add: derivedEqual_def)
  next
    assume "\<exists>d' props' md'. extractLoop lines i d props md = extractLoop lines (i + 1) d' props' md'
              \<and> derivedEqual md' md"
    then obtain d' props' md' where
      e: "extractLoop lines i d props md = extractLoop lines (i + 1) d' props' md'"
      and de: "derivedEqual md' md" by blast
    from Suc.hyps(1)[OF n, of d' props' md'] e de show ?thesis by (simp add: derivedEqual_def)
  qed
qed

lemma unmatched_hash_skipped:
  assumes "i < length lines" "startsWith (trim (lines ! i)) ''#+''"
    "matchKeyValue ''#+'' (trim (lines ! i)) = None"
  shows "extractLoop lines i False props md = extractLoop lines (i + 1) False props md"
proof -
  from assms(2) have h: "startsWith (trim (lines ! i)) ''#''"
    by (auto simp: startsWith_def prefix_def)
  from assms(2) have p: "trim (lines ! i) \<noteq> '':PROPERTIES:''"
    by (auto simp: startsWith_def)
  from assms h p show ?thesis
    by (subst extractLoop.simps) (simp add: Let_def)
qed

lemma extractMetadata_loop:
  "snd (extractMetadata slugifyLib lines) = snd (extractLoop lines 0 False [] initialMetadata)"
  by (simp add: extractMetadata_def Let_def case_prod_unfold)

lemma extractMetadata_derived:
  "md_excerpt (fst (extractMetadata slugifyLib lines)) = None
   \<and> md_readingTime (fst (extractMetadata slugifyLib lines)) = None
   \<and> md_wordCount (fst (extractMetadata slugifyLib lines)) = None
   \<and> md_slug (fst (extractMetadata slugifyLib lines))
       = (case md_title (fst (extractMetadata slugifyLib lines)) of
            None \<Rightarrow> None
          | Some t \<Rightarrow> if t = [] then None else Some (slugifyLib t))"
  using extractLoop_stop[of 0 lines False "[]" initialMetadata]
  by (auto simp: extractMetadata_def Let_def case_prod_unfold derivedEqual_def initialMetadata_def
      split: option.splits)

lemma matchKeyValue_prefix: "matchKeyValue p s = Some kv \<Longrightarrow> startsWith s p"
  by (simp add: matchKeyValue_def split: if_splits)

lemma extractLoop_drawer_step:
  assumes "i < length lines"
  shows "(\<not> d \<and> stopsExtraction (lines ! i) \<and> extractLoop lines i d props md = (md, i))
       \<or> ((d \<or> \<not> stopsExtraction (lines ! i))
            \<and> (\<exists>props' md'. extractLoop lines i d props md
                  = extractLoop lines (i + 1) (drawerStep d (lines ! i)) props' md'))"
proof -
  let ?line = "trim (lines ! i)"
  note eq = extractLoop.simps[of lines i d props md]
  have colon: "\<not> stopsExtraction (lines ! i)" if "?line = '':PROPERTIES:'' \<or> ?line = '':END:''"
    using that by (auto simp: stopsExtraction_def startsWith_def)
  consider (a) "?line = '':PROPERTIES:''"
    | (b) "?line \<noteq> '':PROPERTIES:''" "?line = '':END:'' \<and> d"
    | (c) "?line \<noteq> '':PROPERTIES:''" "\<not> (?line = '':END:'' \<and> d)" "d"
    | (d) "?line \<noteq> '':PROPERTIES:''" "\<not> d" "matchKeyValue ''#+'' ?line \<noteq> None"
    | (e) "?line \<noteq> '':PROPERTIES:''" "\<not> d" "matchKeyValue ''#+'' ?line = None"
          "stopsExtraction (lines ! i)"
    | (f) "?line \<noteq> '':PROPERTIES:''" "\<not> d" "matchKeyValue ''#+'' ?line = None"
          "\<not> stopsExtraction (lines ! i)"
    by blast
  then show ?thesis
  proof cases
    case a
    with assms eq have "extractLoop lines i d props md
        = extractLoop lines (i + 1) (drawerStep d (lines ! i)) props md"
      by (simp add: Let_def drawerStep_def)
    with a colon show ?thesis by blast
  next
    case b
    let ?md = "md\<lparr>md_properties := Some (objSpread (orEmpty (md_properties md)) props)\<rparr>"
    from b assms eq have "extractLoop lines i d props md
        = extractLoop lines (i + 1) (drawerStep d (lines ! i)) props ?md"
      by (simp add: Let_def drawerStep_def)
    with b colon show ?thesis by blast
  next
    case c
    let ?p = "(case matchKeyValue '':'' ?line of
                 Some (k, v) \<Rightarrow> objSet props k v | None \<Rightarrow> props)"
    from c assms eq have "extractLoop lines i d props md
        = extractLoop lines (i + 1) (drawerStep d (lines ! i)) ?p md"
      by (simp add: Let_def drawerStep_def)
    with c show ?thesis by blast
  next
    case d
    then obtain k v where kv: "matchKeyValue ''#+'' ?line = Some (k, v)" by auto
    from matchKeyValue_prefix[OF kv] have "startsWith ?line ''#''"
      by (auto simp: startsWith_def prefix_def)
    then have ns: "\<not> stopsExtraction (lines ! i)" by (simp add: stopsExtraction_def)
    from kv d assms eq have "extractLoop lines i d props md
        = extractLoop lines (i + 1) (drawerStep d (lines ! i)) props
            (setMetadata (map upperAscii k) (trim v) md)"
      by (simp add: Let_def drawerStep_def)
    with ns show ?thesis by blast
  next
    case e
    with assms eq show ?thesis by (simp add: Let_def stopsExtraction_def)
  next
    case f
    from f assms eq have "extractLoop lines i d props md
        = extractLoop lines (i + 1) (drawerStep d (lines ! i)) props md"
      by (auto simp add: Let_def stopsExtraction_def drawerStep_def)
    with f show ?thesis by blast
  qed
qed

lemma foldl_take_drop_step:
  assumes "i < length xs" "i < j"
  shows "foldl f d (take (j - i) (drop i xs)) = foldl f (f d (xs ! i)) (take (j - Suc i) (drop (Suc i) xs))"
proof -
  from assms(1) have "drop i xs = xs ! i # drop (Suc i) xs" by (simp add: Cons_nth_drop_Suc)
  moreover from assms(2) have "j - i = Suc (j - Suc i)" by simp
  ultimately show ?thesis by simp
qed

lemma extractLoop_first_stop:
  "i \<le> snd (extractLoop lines i d props md)
   \<and> (i \<le> length lines \<longrightarrow> snd (extractLoop lines i d props md) \<le> length lines)
   \<and> (\<forall>j. i \<le> j \<and> j < snd (extractLoop lines i d props md) \<longrightarrow>
         foldl drawerStep d (take (j - i) (drop i lines)) \<or> \<not> stopsExtraction (lines ! j))
   \<and> (snd (extractLoop lines i d props md) < length lines \<longrightarrow>
         \<not> foldl drawerStep d (take (snd (extractLoop lines i d props md) - i) (drop i lines))
         \<and> stopsExtraction (lines ! snd (extractLoop lines i d props md)))"
proof (induction "length lines - i" arbitrary: i d props md)
  case 0
  then have ni: "\<not> i < length lines" by simp
  then have "extractLoop lines i d props md = (md, i)"
    by (subst extractLoop.simps) simp
  with ni show ?case by auto
next
  case (Suc n)
  then have i: "i < length lines" by simp
  from Suc have n: "n = length lines - (i + 1)" by simp
  from extractLoop_drawer_step[OF i, of d props md] show ?case
  proof
    assume a: "\<not> d \<and> stopsExtraction (lines ! i) \<and> extractLoop lines i d props md = (md, i)"
    then have e: "extractLoop lines i d props md = (md, i)" by blast
    from a i show ?thesis unfolding e by auto
  next
    assume a: "(d \<or> \<not> stopsExtraction (lines ! i))
       \<and> (\<exists>props' md'. extractLoop lines i d props md
             = extractLoop lines (i + 1) (drawerStep d (lines ! i)) props' md')"
    then obtain props' md' where
      e: "extractLoop lines i d props md
            = extractLoop lines (i + 1) (drawerStep d (lines ! i)) props' md'" by blast
    let ?d = "drawerStep d (lines ! i)"
    let ?k = "snd (extractLoop lines (i + 1) ?d props' md')"
    note IH = Suc.hyps(1)[OF n, of ?d props' md']
    from IH have k: "i + 1 \<le> ?k" by simp
    have f: "foldl drawerStep d (take (j - i) (drop i lines))
        = foldl drawerStep ?d (take (j - (i + 1)) (drop (i + 1) lines))" if "i < j" for j
      using foldl_take_drop_step[OF i that, of drawerStep d] by simp
    have 1: "i \<le> ?k" using k by simp
    have 2: "?k \<le> length lines" using IH i by simp
    have 3: "foldl drawerStep d (take (j - i) (drop i lines)) \<or> \<not> stopsExtraction (lines ! j)"
      if "i \<le> j" "j < ?k" for j
    proof (cases "j = i")
      case True
      with a show ?thesis by simp
    next
      case False
      with that have "i < j" by simp
      with IH that(2) f[OF this] show ?thesis by simp
    qed
    have 4: "\<not> foldl drawerStep d (take (?k - i) (drop i lines)) \<and> stopsExtraction (lines ! ?k)"
      if "?k < length lines"
      using IH that f[of ?k] k by simp
    from 1 2 3 4 show ?thesis by (simp only: e) blast
  qed
qed

lemma extractMetadata_first_stop:
  "snd (extractMetadata slugifyLib lines) \<le> length lines
   \<and> (\<forall>j < snd (extractMetadata slugifyLib lines).
         inDrawerAt lines j \<or> \<not> stopsExtraction (lines ! j))
   \<and> (snd (extractMetadata slugifyLib lines) < length lines \<longrightarrow>
         \<not> inDrawerAt lines (snd (extractMetadata slugifyLib lines))
         \<and> stopsExtraction (lines ! snd (extractMetadata slugifyLib lines)))"
  using extractLoop_first_stop[of 0 lines False "[]" initialMetadata]
  by (simp add: extractMetadata_loop inDrawerAt_def)

lemma parse_body:
  "map_option children (parse slugifyLib content)
     = parseTokens (tokenize (join (drop (snd (extractMetadata slugifyLib (split content newline)))
         (split content newline)) newline))"
  by (simp add: parse_def Let_def case_prod_unfold createDocument_def split: option.split)
section \<open>Facts about heading levels\<close>

lemma noHeading_levelsOk: "noHeading n \<Longrightarrow> levelsOk n"
  by (induction n rule: levelsOk.induct) (auto split: option.splits)

lemma noHeading_text [simp]: "noHeading (createTextNode s)"
  by (simp add: createTextNode_def)

lemma noHeading_flush: "\<forall>n \<in> set (fst (flushWhen b ([], cur))). noHeading n"
  by (simp add: flushWhen_def)

lemma noHeading_linkNode: "noHeading (linkNode s)"
  by (simp add: linkNode_def Let_def createNode_def)

lemma scanResult_noHeading:
  assumes "scanResult t i ([], cur) r"
  shows "case r of PushBold pre content j \<Rightarrow> (\<forall>n \<in> set pre. noHeading n)
         | PushNode pre node j \<Rightarrow> (\<forall>n \<in> set pre. noHeading n) \<and> noHeading node
         | Append pre cur' \<Rightarrow> (\<forall>n \<in> set pre. noHeading n)"
  using assms
  by cases (auto simp: flushWhen_def createNode_def noHeading_linkNode split: if_splits)

lemma parseInlineFrom_noHeading: "\<forall>n \<in> set (parseInlineFrom t i cur). noHeading n"
proof (induction t i cur rule: parseInlineFrom.induct)
  case (1 t i cur)
  show ?case
  proof (cases "i < length t")
    case False
    then show ?thesis by (simp add: parseInlineFrom_end flushWhen_def)
  next
    case True
    note sr = scanResult_noHeading[OF scanResult_blockBold[of t i "([], cur)"]]
    show ?thesis
    proof (cases "blockBold t i ([], cur)")
      case (PushBold pre content j)
      with sr "1.IH"(1)[OF _ PushBold] "1.IH"(2)[OF _ PushBold] True
        parseInlineFrom_PushBold[OF True PushBold]
      show ?thesis by (auto simp: createNode_def)
    next
      case (PushNode pre node j)
      with sr "1.IH"(3)[OF _ PushNode] True parseInlineFrom_PushNode[OF True PushNode]
      show ?thesis by auto
    next
      case (Append pre cur')
      with sr "1.IH"(4)[OF _ Append] True parseInlineFrom_Append[OF True Append]
      show ?thesis by auto
    qed
  qed
qed

lemma parseInlineMarkup_noHeading: "\<forall>n \<in> set (parseInlineMarkup s). noHeading n"
  by (simp add: parseInlineMarkup_def parseInlineFrom_noHeading)

lemma tokenizeLine_ok: "tokenOk (tokenizeLine i line)"
proof (cases "trim line = []")
  case True
  then show ?thesis by (simp add: tokenizeLine_def tokenOk_def mkToken_def)
next
  case False
  show ?thesis
  proof (cases "matchHeading (trim line)")
    case (Some m)
    then obtain stars tx where m: "m = (stars, tx)" by (cases m)
    with Some have "stars \<noteq> []"
      by (auto simp: matchHeading_def Let_def split: if_splits)
    then have "1 \<le> int (length stars)" by (cases stars) auto
    with False Some m show ?thesis
      by (simp add: tokenizeLine_def tokenOk_def mkToken_def)
  next
    case None
    with False have "ttype (tokenizeLine i line) \<noteq> HEADING"
      by (simp add: tokenizeLine_def mkToken_def Let_def split: option.split prod.split)
    then show ?thesis by (simp add: tokenOk_def)
  qed
qed

lemma tokenize_ok: "\<forall>t \<in> set (tokenize content). tokenOk t"
  by (auto simp: tokenize_def tokenizeLine_ok)

lemma parseHeading_levelsOk: "tokenOk t \<Longrightarrow> ttype t = HEADING \<Longrightarrow> levelsOk (parseHeading t)"
  using parseInlineMarkup_noHeading
  by (auto simp: parseHeading_def tokenOk_def Let_def createNode_def noHeading_levelsOk
      split: option.splits)

lemma whileTokens_all:
  assumes "\<And>t x. x \<in> set (f t) \<Longrightarrow> Q x"
  shows "\<forall>x \<in> set (fst (whileTokens P f tokens i)). Q x"
  using assms by (auto simp: whileTokens_takeWhile)

lemma tableRow_noHeading: "noHeading (tableRow v)"
  using parseInlineMarkup_noHeading by (auto simp: tableRow_def Let_def createNode_def)

lemma listItem_noHeading: "noHeading (listItem t)"
  using parseInlineMarkup_noHeading by (auto simp: listItem_def createNode_def)

lemma parseTable_noHeading: "noHeading (fst (parseTable tokens i))"
proof -
  have "\<forall>x \<in> set (fst (whileTokens (\<lambda>t. ttype t = TABLE_ROW)
            (\<lambda>t. if isSeparatorRow (tvalue t) then [] else [tableRow (tvalue t)]) tokens i)).
          noHeading x"
    by (rule whileTokens_all) (auto simp: tableRow_noHeading split: if_splits)
  then show ?thesis
    by (simp add: parseTable_def Let_def case_prod_unfold createNode_def)
qed

lemma parseList_noHeading: "parseList tokens i = Some (node, e) \<Longrightarrow> noHeading node"
  using whileTokens_all[of "\<lambda>t. [listItem t]" noHeading
      "\<lambda>t. ttype t = LIST_ITEM \<and> tindent t = tindent (tokens ! i)" tokens i]
  by (auto simp: parseList_def Let_def case_prod_unfold createNode_def listItem_noHeading
      split: if_splits)

lemma parseCodeBlock_noHeading: "parseCodeBlock tokens i = Some (node, e) \<Longrightarrow> noHeading node"
  by (auto simp: parseCodeBlock_def Let_def case_prod_unfold createNode_def split: if_splits)

lemma parseBlock_noHeading: "parseBlock tokens i = Some (node, e) \<Longrightarrow> noHeading node"
  using parseInlineMarkup_noHeading
  by (auto simp: parseBlock_def Let_def case_prod_unfold createNode_def split: if_splits)

lemma parseDrawer_noHeading: "parseDrawer tokens i = Some (Some node, e) \<Longrightarrow> noHeading node"
  by (auto simp: parseDrawer_def Let_def case_prod_unfold createNode_def split: if_splits)

lemma parseShortcode_noHeading: "noHeading (parseShortcode t)"
  by (auto simp: parseShortcode_def Let_def createNode_def split: option.splits)

lemma parseParagraph_noHeading: "fst (parseParagraph tokens i) = Some node \<Longrightarrow> noHeading node"
  using parseInlineMarkup_noHeading
  by (auto simp: parseParagraph_def Let_def case_prod_unfold createNode_def split: if_splits)

lemma parseTokensFrom_levelsOk:
  assumes "\<forall>t \<in> set tokens. tokenOk t"
  shows "\<exists>nodes. parseTokensFrom tokens i = Some nodes \<and> (\<forall>n \<in> set nodes. levelsOk n)"
  using assms
proof (induction tokens i rule: parseTokensFrom.induct)
  case (1 tokens i)
  note eq = parseTokensFrom.simps[of tokens i]
  show ?case
  proof (cases "i < length tokens")
    case False
    with eq show ?thesis by simp
  next
    case True
    then have tok: "tokenOk (tokens ! i)" using "1.prems" by simp
    show ?thesis
    proof (cases "ttype (tokens ! i)")
      case HEADING
      from "1.IH"(1)[OF _ HEADING "1.prems"] True obtain ns where
        "parseTokensFrom tokens (i + 1) = Some ns" "\<forall>n \<in> set ns. levelsOk n" by auto
      with eq True HEADING parseHeading_levelsOk[OF tok HEADING] show ?thesis by simp
    next
      case LIST_ITEM
      from True obtain node e where p: "parseList tokens i = Some (node, e)"
        by (auto simp: parseList_def Let_def case_prod_unfold)
      from "1.IH"(2)[OF _ LIST_ITEM p refl "1.prems"] True obtain ns where
        "parseTokensFrom tokens (nat (e + 1)) = Some ns" "\<forall>n \<in> set ns. levelsOk n" by auto
      with eq True LIST_ITEM p noHeading_levelsOk[OF parseList_noHeading[OF p]] show ?thesis
        by simp
    next
      case CODE_BLOCK_START
      from True obtain node e where p: "parseCodeBlock tokens i = Some (node, e)"
        by (auto simp: parseCodeBlock_def Let_def case_prod_unfold)
      from "1.IH"(3)[OF _ CODE_BLOCK_START p refl "1.prems"] True obtain ns where
        "parseTokensFrom tokens (nat (e + 1)) = Some ns" "\<forall>n \<in> set ns. levelsOk n" by auto
      with eq True CODE_BLOCK_START p noHeading_levelsOk[OF parseCodeBlock_noHeading[OF p]]
      show ?thesis by simp
    next
      case CODE_BLOCK_END
      from "1.IH"(4)[OF _ CODE_BLOCK_END "1.prems"] True eq CODE_BLOCK_END show ?thesis by simp
    next
      case BLOCK_START
      from True obtain node e where p: "parseBlock tokens i = Some (node, e)"
        by (auto simp: parseBlock_def Let_def case_prod_unfold)
      from "1.IH"(5)[OF _ BLOCK_START p refl "1.prems"] True obtain ns where
        "parseTokensFrom tokens (nat (e + 1)) = Some ns" "\<forall>n \<in> set ns. levelsOk n" by auto
      with eq True BLOCK_START p noHeading_levelsOk[OF parseBlock_noHeading[OF p]]
      show ?thesis by simp
    next
      case BLOCK_END
      from "1.IH"(6)[OF _ BLOCK_END "1.prems"] True eq BLOCK_END show ?thesis by simp
    next
      case TABLE_ROW
      from "1.IH"(7)[OF _ TABLE_ROW "1.prems"] True obtain ns where
        "parseTokensFrom tokens (nat (snd (parseTable tokens i) + 1)) = Some ns"
        "\<forall>n \<in> set ns. levelsOk n" by auto
      with eq True TABLE_ROW noHeading_levelsOk[OF parseTable_noHeading[of tokens i]]
      show ?thesis by simp
    next
      case DRAWER_START
      from True have "parseDrawer tokens i \<noteq> None"
        by (simp add: parseDrawer_def Let_def case_prod_unfold)
      then obtain node e where p: "parseDrawer tokens i = Some (node, e)"
        by (cases "parseDrawer tokens i") auto
      from "1.IH"(8)[OF _ DRAWER_START p refl "1.prems"] True obtain ns where
        ns: "parseTokensFrom tokens (nat (e + 1)) = Some ns" "\<forall>n \<in> set ns. levelsOk n" by auto
      show ?thesis
      proof (cases node)
        case None
        with eq True DRAWER_START p ns show ?thesis by simp
      next
        case (Some n)
        with p have "noHeading n" using parseDrawer_noHeading by blast
        with eq True DRAWER_START p ns Some noHeading_levelsOk show ?thesis by simp
      qed
    next
      case DRAWER_END
      from "1.IH"(9)[OF _ DRAWER_END "1.prems"] True eq DRAWER_END show ?thesis by simp
    next
      case SHORTCODE
      from "1.IH"(10)[OF _ SHORTCODE "1.prems"] True obtain ns where
        "parseTokensFrom tokens (i + 1) = Some ns" "\<forall>n \<in> set ns. levelsOk n" by auto
      with eq True SHORTCODE noHeading_levelsOk[OF parseShortcode_noHeading[of "tokens ! i"]]
      show ?thesis by simp
    next
      case PARAGRAPH
      from "1.IH"(11)[OF _ PARAGRAPH "1.prems"] True eq PARAGRAPH show ?thesis by simp
    next
      case BLANK
      from "1.IH"(12)[OF _ BLANK "1.prems"] True eq BLANK show ?thesis by simp
    next
      case TEXT
      from "1.IH"(13)[OF _ TEXT "1.prems"] True obtain ns where
        ns: "parseTokensFrom tokens (nat (snd (parseParagraph tokens i) + 1)) = Some ns"
        "\<forall>n \<in> set ns. levelsOk n" by auto
      show ?thesis
      proof (cases "fst (parseParagraph tokens i)")
        case None
        with eq True TEXT ns show ?thesis by simp
      next
        case (Some n)
        with eq True TEXT ns noHeading_levelsOk[OF parseParagraph_noHeading[OF Some]]
        show ?thesis by simp
      qed
    qed
  qed
qed

lemma renderNode_context:
  "snd (renderNode hl (AstNode t p kids v) ctx) =
     (if t = Heading then snd (renderHeading (AstNode t p kids v) ctx)
      else if t = Footnote then snd (renderFootnote (AstNode t p kids v) ctx)
      else if t \<in> {List, ListItem, Table, TableRow, TableCell, Quote, Example, Verse, Center,
                    Bold, Italic, Underline, Code, Verbatim, Strike}
        then snd (renderChildren hl kids ctx)
      else ctx)"
  by (cases t) (simp_all add: Let_def)

lemma renderHeading_inRange:
  assumes "levelsOk (AstNode Heading p kids v)" "headingsInRange ctx"
  shows "headingsInRange (snd (renderHeading (AstNode Heading p kids v) ctx))"
  using assms by (auto simp: renderHeading_def Let_def headingsInRange_def)

lemma renderFootnote_inRange:
  "headingsInRange (snd (renderFootnote node ctx)) = headingsInRange ctx"
  by (simp add: renderFootnote_def Let_def headingsInRange_def)

lemma render_inRange:
  "levelsOk node \<Longrightarrow> headingsInRange ctx \<Longrightarrow>
     headingsInRange (snd (renderNode hl node ctx))"
  "(case kids of None \<Rightarrow> True | Some cs \<Rightarrow> \<forall>c \<in> set cs. levelsOk c) \<Longrightarrow> headingsInRange ctx \<Longrightarrow>
     headingsInRange (snd (renderChildren hl kids ctx))"
  "\<forall>c \<in> set cs. levelsOk c \<Longrightarrow> headingsInRange ctx \<Longrightarrow>
     headingsInRange (snd (renderNodes hl cs ctx))"
proof (induction hl node ctx and hl kids ctx and hl cs ctx
    rule: renderNode_renderChildren_renderNodes.induct)
  case (1 hl t p kids v ctx)
  from "1.prems"(1) have k: "case kids of None \<Rightarrow> True | Some cs \<Rightarrow> \<forall>c \<in> set cs. levelsOk c"
    by simp
  note IH = "1.IH"[OF refl k "1.prems"(2)]
  show ?case
    using IH "1.prems" renderHeading_inRange[of p kids v ctx]
    by (simp only: renderNode_context renderFootnote_inRange split: if_splits) auto
next
  case (5 hl child cs ctx)
  then show ?case by (simp add: Let_def)
qed simp_all

lemma renderHeading_tag:
  assumes "levelsOk node" "ntype node = Heading"
  shows \<open>\<exists>N body. 1 \<le> N \<and> N \<le> 6
           \<and> fst (renderNode hl node ctx)
               = ''<h'' @ showInt N @ '' id="'' @ body @ ''</h'' @ showInt N @ ''>'' @ newline\<close>
proof (cases node)
  case (AstNode t p kids v)
  with assms obtain q l where l: "p = Some q" "level q = Some l" "1 \<le> l" and t: "t = Heading"
    by auto
  let ?N = "min l 6"
  from l(3) have "1 \<le> ?N \<and> ?N \<le> 6" by simp
  moreover from AstNode l t have \<open>\<exists>body. fst (renderNode hl node ctx)
      = ''<h'' @ showInt ?N @ '' id="'' @ body @ ''</h'' @ showInt ?N @ ''>'' @ newline\<close>
    by (simp add: renderHeading_def Let_def)
  ultimately show ?thesis by blast
qed

lemma heading_line_tag:
  assumes "trim line \<noteq> []" "matchHeading (trim line) = Some (stars, tx)"
  shows \<open>\<exists>body. fst (renderHeading (parseHeading (tokenizeLine i line)) ctx)
           = ''<h'' @ showInt (min (int (length stars)) 6) @ '' id="'' @ body\<close>
proof -
  from assms(2) have "stars \<noteq> []"
    by (auto simp: matchHeading_def Let_def split: if_splits)
  then have "int (length stars) \<noteq> 0" by simp
  with assms show ?thesis
    by (simp add: tokenizeLine_def mkToken_def parseHeading_def renderHeading_def Let_def
        createNode_def)
qed

lemma parse_levelsOk:
  "\<exists>ast. parse slugifyLib content = Some ast \<and> (\<forall>n \<in> set (children ast). levelsOk n)"
proof -
  let ?lines = "split content newline"
  let ?tokens = "tokenize (join (drop (snd (extractMetadata slugifyLib ?lines)) ?lines) newline)"
  from parseTokensFrom_levelsOk[of ?tokens 0] tokenize_ok obtain nodes where
    "parseTokens ?tokens = Some nodes" "\<forall>n \<in> set nodes. levelsOk n"
    by (auto simp: parseTokens_def)
  then show ?thesis
    by (simp add: parse_def Let_def case_prod_unfold createDocument_def)
qed

section \<open>Facts about the rendered HTML\<close>




lemma scan_plainSafe [simp]: "plainSafe s \<Longrightarrow> htmlScan st m (s @ r) = htmlScan st m r"
proof (induction s)
  case Nil
  show ?case by simp
next
  case (Cons a s)
  then show ?case by (cases m) (auto simp: plainSafe_def)
qed

lemma scan_textSafe [simp]:
  "textSafe s \<Longrightarrow> htmlScan False InText (s @ r) = htmlScan False InText r"
  by (induction s) (auto simp: textSafe_def)




lemma strict_step: "htmlStep True m c cs = Some m' \<Longrightarrow> htmlStep False m c cs = Some m'"
  by (cases m) (auto split: if_splits)

lemma strict_scan: "htmlScan True m s = Some m' \<Longrightarrow> htmlScan False m s = Some m'"
proof (induction s arbitrary: m)
  case Nil
  then show ?case by simp
next
  case (Cons c cs)
  then obtain x where x: "htmlStep True m c cs = Some x" "htmlScan True x cs = Some m'"
    by (auto split: option.splits)
  from strict_step[OF x(1)] Cons.IH[OF x(2)] show ?case by simp
qed

lemma escapedHtml_wellFormed: "escapedHtml s \<Longrightarrow> wellFormed s"
  using strict_scan[of InText s InText] by (simp add: escapedHtml_def wellFormed_def scans_def)

lemma set_replaceChar:
  "set (replaceChar x rep s) = (set s - {x}) \<union> (if x \<in> set s then set rep else {})"
  by (induction s) (auto simp: replaceChar_def)

lemma escapeHtml_no_special:
  "CHR ''<'' \<notin> set (escapeHtml s) \<and> CHR ''>'' \<notin> set (escapeHtml s)
   \<and> CHR 0x22 \<notin> set (escapeHtml s) \<and> CHR 0x27 \<notin> set (escapeHtml s)"
  by (simp add: escapeHtml_def set_replaceChar)

lemma textSafe_escapeHtml3 [simp]: "textSafe (escapeHtml3 s)"
  by (simp add: textSafe_def escapeHtml3_def set_replaceChar)

lemma replaceChar_append: "replaceChar x rep (a @ b) = replaceChar x rep a @ replaceChar x rep b"
  by (simp add: replaceChar_def)

lemma escapeHtml_append: "escapeHtml (a @ b) = escapeHtml a @ escapeHtml b"
  by (simp add: escapeHtml_def replaceChar_append)

lemma escapeHtml_chars: "escapeHtml s = concat (map escapeChar s)"
proof (induction s)
  case Nil
  show ?case by (simp add: escapeHtml_def replaceChar_def)
next
  case (Cons c s)
  have "escapeHtml [c] = escapeChar c"
    by (simp add: escapeHtml_def replaceChar_def escapeChar_def)
  with Cons escapeHtml_append[of "[c]" s] show ?case by simp
qed

lemma scan_escapeChar: "htmlScan st m (escapeChar c @ r) = htmlScan st m r"
  by (cases m) (simp_all add: escapeChar_def entityAhead_def)

lemma scan_escapeHtml [simp]: "htmlScan st m (escapeHtml s @ r) = htmlScan st m r"
  by (induction s) (simp_all add: escapeHtml_chars scan_escapeChar)

lemma plainSafe_showNat: "plainSafe (showNat n)"
proof (induction n rule: showNat.induct)
  case (1 n)
  have d: "m < 10 \<Longrightarrow> plainSafe [char_of (48 + m)]" for m :: nat
  proof -
    assume m: "m < 10"
    then have a: "(of_char (char_of (48 + m)) :: nat) = 48 + m" by simp
    have "char_of (48 + m) \<noteq> c"
      if c: "c \<in> {CHR ''<'', CHR ''>'', CHR 0x22, CHR 0x27, CHR ''&''}" for c
    proof
      assume e: "char_of (48 + m) = c"
      from a have "(of_char c :: nat) = 48 + m" unfolding e .
      with c m show False by auto
    qed
    then have "char_of (48 + m) \<notin> {CHR ''<'', CHR ''>'', CHR 0x22, CHR 0x27, CHR ''&''}" by blast
    then show ?thesis by (auto simp: plainSafe_def)
  qed
  show ?case
  proof (cases "n < 10")
    case True
    with d[of n] show ?thesis by (simp add: showNat.simps[of n])
  next
    case False
    with 1 d[of "n mod 10"] show ?thesis
      by (simp add: showNat.simps[of n] plainSafe_def)
  qed
qed

lemma plainSafe_showInt [simp]: "plainSafe (showInt k)"
  using plainSafe_showNat[of "nat k"] plainSafe_showNat[of "nat (- k)"]
  by (simp add: showInt_def plainSafe_def)

lemma set_replaceRuns: "set (replaceRuns P rep s) \<subseteq> set s \<union> set rep"
  by (induction P rep s rule: replaceRuns.induct) auto

lemma set_trim: "set (trim s) \<subseteq> set s"
proof -
  have "set (trimEnd s) \<subseteq> set s" for s
    using set_dropWhileD[of _ isSpace "rev s"] by (auto simp: trimEnd_def)
  moreover have "set (trimStart s) \<subseteq> set s"
    using set_dropWhileD[of _ isSpace s] by (auto simp: trimStart_def)
  ultimately show ?thesis unfolding trim_def by blast
qed

lemma slugify_chars: "c \<in> set (slugify s) \<Longrightarrow> isWord c \<or> isSpace c \<or> c = CHR ''-''"
proof -
  assume "c \<in> set (slugify s)"
  with set_trim set_replaceRuns[of "\<lambda>c. c = CHR ''-''" "''-''"] set_replaceRuns[of isSpace "''-''"]
  have "c \<in> set (filter (\<lambda>c. isWord c \<or> isSpace c \<or> c = CHR ''-'') (toLowerCase s)) \<or> c = CHR ''-''"
    unfolding slugify_def by fastforce
  then show ?thesis by auto
qed

lemma plainSafe_slugify [simp]: "plainSafe (slugify s)"
proof -
  have "\<not> (isWord c \<or> isSpace c \<or> c = CHR ''-'')"
    if "c \<in> {CHR ''<'', CHR ''>'', CHR 0x22, CHR 0x27, CHR ''&''}" for c
    using that by (auto simp: isWord_def isSpace_def isDigit_def charCode_def)
  with slugify_chars[of _ s] show ?thesis unfolding plainSafe_def by blast
qed

lemma htmlScan_plainSafe [simp]: "plainSafe s \<Longrightarrow> htmlScan st m s = Some m"
  using scan_plainSafe[of s st m "[]"] by simp

lemma htmlScan_escapeHtml [simp]: "htmlScan st m (escapeHtml s) = Some m"
  using scan_escapeHtml[of st m s "[]"] by simp













lemma options_renderHeading [simp]: "options (snd (renderHeading node ctx)) = options ctx"
  by (simp add: renderHeading_def Let_def)

lemma options_renderFootnote [simp]: "options (snd (renderFootnote node ctx)) = options ctx"
  by (simp add: renderFootnote_def Let_def)










lemma ab_append [simp]: "angleBrackets (a @ b) = angleBrackets a @ angleBrackets b"
  by (simp add: angleBrackets_def)

lemma ab_Cons [simp]:
  "angleBrackets (c # s) = (if c = CHR ''<'' \<or> c = CHR ''>'' then c # angleBrackets s else angleBrackets s)"
  by (simp add: angleBrackets_def)

lemma ab_Nil [simp]: "angleBrackets [] = []"
  by (simp add: angleBrackets_def)

lemma ab_textSafe: "textSafe s \<Longrightarrow> angleBrackets s = []"
  by (induction s) (auto simp: textSafe_def)

lemma ab_escapeHtml [simp]: "angleBrackets (escapeHtml s) = []"
  using escapeHtml_no_special[of s] by (simp add: ab_textSafe textSafe_def)

lemma ab_escapeHtml3 [simp]: "angleBrackets (escapeHtml3 s) = []"
  by (simp add: ab_textSafe)

lemma ab_plainSafe [simp]: "plainSafe s \<Longrightarrow> angleBrackets s = []"
  by (rule ab_textSafe) (auto simp: plainSafe_def textSafe_def)


lemma ntype_withoutText [simp]: "ntype (withoutText n) = ntype n"
  by (cases n) simp

lemma nproperties_withoutText [simp]: "nproperties (withoutText n) = nproperties n"
  by (cases n) simp

lemma propString_withoutText [simp]: "propString (withoutText n) f = propString n f"
  by (simp add: propString_def)














lemma sameFrame_refl [simp]: "sameFrame ctx ctx"
  by (simp add: sameFrame_def)

section \<open>Facts about the text of rendered inline markup\<close>

lemma removeTags_text: "CHR ''<'' \<notin> set s \<Longrightarrow> removeTagsFrom False (s @ r) = s @ removeTagsFrom False r"
  by (induction s) auto

lemma removeTags_tag: "CHR ''>'' \<notin> set s \<Longrightarrow> removeTagsFrom True (s @ r) = removeTagsFrom True r"
  by (induction s) auto

lemma removeTags_escapeHtml [simp]:
  "removeTagsFrom False (escapeHtml s @ r) = escapeHtml s @ removeTagsFrom False r"
  "removeTagsFrom True (escapeHtml s @ r) = removeTagsFrom True r"
  using escapeHtml_no_special[of s] by (simp_all add: removeTags_text removeTags_tag)











lemma visible_append [simp]: "visible (a @ b) = visible a @ visible b"
  by (simp add: visible_def)

lemma visible_Cons [simp]: "visible (c # s) = (if isDelimiter c then visible s else c # visible s)"
  by (simp add: visible_def)

lemma visible_Nil [simp]: "visible [] = []"
  by (simp add: visible_def)










section \<open>Evaluated examples\<close>

lemma sample_document_parts:
  \<open>renderDocumentParts slugifyLib hl
     ''#+TITLE: T\<newline>* A\<newline>Some *bold* and /italic/ text.'' defaultOptions
   = Some (''<nav class="toc"><h2>Table of Contents</h2><ul><li><a href="#a">A</a></li></ul></nav>\<newline>'',
           ''<h1 id="a">A</h1>\<newline><p>Some <strong>bold</strong> and <em>italic</em> text.</p>\<newline>'',
           [])\<close>
  by code_simp

lemma sample_table_children:
  "map_option children (parse slugifyLib ''|a|b|\<newline>|-|-|\<newline>|1|2|'')
   = Some [createNode Table (Some emptyProps) (Some
      [createNode TableRow (Some emptyProps) (Some
         [createNode TableCell (Some emptyProps) (Some [createTextNode ''a'']),
          createNode TableCell (Some emptyProps) (Some [createTextNode ''b''])]),
       createNode TableRow (Some emptyProps) (Some
         [createNode TableCell (Some emptyProps) (Some [createTextNode ''1'']),
          createNode TableCell (Some emptyProps) (Some [createTextNode ''2''])])])]"
  by code_simp

lemma deep_parse: "map_option children (parse sameSlug ''******* Deep'') = Some [deepHeading]"
  by code_simp

lemma deep_headings:
  "headings (snd (renderNodes throwingHighlighter [deepHeading] (initialContext defaultOptions)))
     = [\<lparr>hLevel = 6, hText = ''Deep'', hId = ''deep''\<rparr>]"
  by code_simp

lemma deep_match:
  "trim ''******* Deep'' \<noteq> [] \<and> matchHeading (trim ''******* Deep'') = Some (''*******'', ''Deep'')"
  by code_simp



lemma drawer_lines_facts:
  "3 < length ['':PROPERTIES:'', ''hello'', '':END:'', ''#+BEGIN_SRC js'', ''code''] \<and> startsWith (trim (['':PROPERTIES:'', ''hello'', '':END:'', ''#+BEGIN_SRC js'', ''code''] ! 3)) ''#+''
   \<and> matchKeyValue ''#+'' (trim (['':PROPERTIES:'', ''hello'', '':END:'', ''#+BEGIN_SRC js'', ''code''] ! 3)) = None
   \<and> snd (extractMetadata sameSlug ['':PROPERTIES:'', ''hello'', '':END:'', ''#+BEGIN_SRC js'', ''code'']) = 4
   \<and> inDrawerAt ['':PROPERTIES:'', ''hello'', '':END:'', ''#+BEGIN_SRC js'', ''code''] 1 \<and> stopsExtraction (['':PROPERTIES:'', ''hello'', '':END:'', ''#+BEGIN_SRC js'', ''code''] ! 1)"
  by code_simp

lemma opener_facts:
  "scanStateAt ''a *b'' 2 [] [] 0 = Some ([], ''a '') \<and> unmatchedOpener ''a *b'' 2"
  by code_simp

section \<open>Claims\<close>

text \<open>
  C9. The inline markup parser terminates on every input: the recursion of
  \<open>parseInlineFrom\<close> is well founded at every argument (every chain of recursive calls is
  finite), because an iteration at an index inside the text continues at a larger index
  and hands the bold branch a content shorter than the text.
\<close>

theorem parseInlineMarkup_terminates:
  "parseInlineFrom_dom (text, i, current)
   \<and> (i < length text \<longrightarrow> advances text i (blockBold text i ([], current)))"
  using parseInlineFrom_total advances_blockBold by simp

theorem parseInlineMarkup_terminates_witness:
  "parseInlineFrom_dom (''*b*'', 0, [])
   \<and> 0 < length ''*b*'' \<and> advances ''*b*'' 0 (blockBold ''*b*'' 0 ([], []))"
  using parseInlineMarkup_terminates[of "''*b*''" 0 "[]"] by simp

text \<open>
  C6, as the code has it. When the loop begins an iteration at an opener that has no
  closing marker behind it, the opener is not markup: the output of the parser is the
  nodes pushed so far, the pending text flushed into a text leaf, and what the scan
  yields from one character later with the opener character as the pending text, which
  starts with a plain text leaf that begins with that character. The parser has no
  error result, and its recursion is well founded: it returns for every text.
\<close>

theorem unmatched_opener_is_plain_text:
  assumes "scanStateAt text i [] [] 0 = Some (nodes, current)" "unmatchedOpener text i"
  shows "parseInlineMarkup text
           = nodes @ fst (flushWhen True ([], current)) @ parseInlineFrom text (i + 1) [text ! i]
         \<and> (\<exists>s rest. parseInlineFrom text (i + 1) [text ! i]
               = createTextNode (text ! i # s) # rest)
         \<and> parseInlineFrom_dom (text, 0, [])"
  using scanStateAt_output[OF assms(1)] unmatched_opener_step[OF assms(2), of current]
    parseInlineFrom_total
  by (simp add: parseInlineMarkup_def)

theorem unmatched_opener_is_plain_text_witness:
  "scanStateAt ''a *b'' 2 [] [] 0 = Some ([], ''a '') \<and> unmatchedOpener ''a *b'' 2
   \<and> parseInlineMarkup ''a *b''
       = [] @ fst (flushWhen True ([], ''a '')) @ parseInlineFrom ''a *b'' (2 + 1) [''a *b'' ! 2]
   \<and> (\<exists>s rest. parseInlineFrom ''a *b'' (2 + 1) [''a *b'' ! 2]
         = createTextNode (''a *b'' ! 2 # s) # rest)"
proof -
  from opener_facts have h: "scanStateAt ''a *b'' 2 [] [] 0 = Some ([], ''a '')"
    and u: "unmatchedOpener ''a *b'' 2" by blast+
  from unmatched_opener_is_plain_text[OF h u] h u show ?thesis by blast
qed

text \<open>
  C6, as the claim states it (for every opener without a closing marker), fails for an
  opener at which no iteration begins: the asterisk of \<open>[fn:a*b]\<close> has no closing marker,
  and it is part of the reference of the footnote node, the only node of the output.
\<close>

theorem opener_inside_footnote_counterexample:
  "unmatchedOpener ''[fn:a*b]'' 5
   \<and> parseInlineMarkup ''[fn:a*b]''
       = [createNode Footnote (Some (emptyProps\<lparr>ref := Some ''a*b''\<rparr>)) None]
   \<and> scanStateAt ''[fn:a*b]'' 5 [] [] 0 = None"
  by code_simp

text \<open>
  C7. The list built at \<open>startIndex\<close> has as items exactly the longest run of tokens from
  \<open>startIndex\<close> on that are list items at the indent of the opening item, one item per
  token, and \<open>endIndex\<close> is the index of the last of them: the first token that is not a
  list item, or is one at another indent (one more space is enough), ends the list and
  is not part of it.
\<close>

theorem parseList_takes_same_indent_run:
  assumes "startIndex < length tokens"
  shows "\<exists>node endIndex.
           parseList tokens startIndex = Some (node, endIndex)
         \<and> ntype node = List
         \<and> nchildren node = Some (map listItem (takeWhile (sameList tokens startIndex) (drop startIndex tokens)))
         \<and> endIndex = int startIndex + int (length (takeWhile (sameList tokens startIndex) (drop startIndex tokens))) - 1
         \<and> (nat (endIndex + 1) < length tokens \<longrightarrow>
              \<not> sameList tokens startIndex (tokens ! nat (endIndex + 1)))"
proof -
  let ?P = "sameList tokens startIndex"
  let ?run = "takeWhile ?P (drop startIndex tokens)"
  have P: "(\<lambda>t. ttype t = LIST_ITEM \<and> tindent t = tindent (tokens ! startIndex)) = ?P"
    by (simp add: sameList_def fun_eq_iff)
  have stop: "startIndex + length ?run < length tokens \<Longrightarrow>
      \<not> ?P (tokens ! (startIndex + length ?run))"
  proof -
    assume a: "startIndex + length ?run < length tokens"
    then have "length ?run < length (drop startIndex tokens)" by simp
    from nth_length_takeWhile[OF this] a show ?thesis by (simp add: add.commute)
  qed
  have c: "concat (map (\<lambda>t. [listItem t]) ?run) = map listItem ?run"
    by (induction ?run) auto
  have n: "nat (int startIndex + int (length ?run)) = startIndex + length ?run"
    by simp
  show ?thesis
    using assms stop
    by (simp add: parseList_def Let_def P whileTokens_takeWhile createNode_def c n)
qed

theorem parseList_takes_same_indent_run_witness:
  "0 < length (tokenize ''- a\<newline> - b\<newline>- c'')
   \<and> (\<exists>node. parseList (tokenize ''- a\<newline> - b\<newline>- c'') 0 = Some (node, 0)
         \<and> nchildren node = Some [listItem (tokenize ''- a\<newline> - b\<newline>- c'' ! 0)]
         \<and> ttype (tokenize ''- a\<newline> - b\<newline>- c'' ! 1) = LIST_ITEM
         \<and> tindent (tokenize ''- a\<newline> - b\<newline>- c'' ! 1) = 1
         \<and> tindent (tokenize ''- a\<newline> - b\<newline>- c'' ! 0) = 0)"
proof -
  let ?ts = "tokenize ''- a\<newline> - b\<newline>- c''"
  have h: "0 < length ?ts"
    by code_simp
  have r: "takeWhile (sameList ?ts 0) (drop 0 ?ts) = [?ts ! 0]"
    by code_simp
  have t: "ttype (?ts ! 1) = LIST_ITEM \<and> tindent (?ts ! 1) = 1 \<and> tindent (?ts ! 0) = 0"
    by code_simp
  from parseList_takes_same_indent_run[OF h] r t h show ?thesis
    by auto
qed

text \<open>
  C1, as the code has it. For the document of the claim and default options the body is
  the string of the claim and there is no footnote block, but the table of contents is
  not absent: the option \<open>toc\<close> is not \<open>false\<close> and the document has a heading, so the
  output starts with a \<open>nav\<close> block of one entry, and the whole is handed to the
  sanitizer.
\<close>

theorem sample_document_has_toc_and_body:
  \<open>renderDocumentParts slugifyLib hl
     ''#+TITLE: T\<newline>* A\<newline>Some *bold* and /italic/ text.'' defaultOptions
   = Some (''<nav class="toc"><h2>Table of Contents</h2><ul><li><a href="#a">A</a></li></ul></nav>\<newline>'',
           ''<h1 id="a">A</h1>\<newline><p>Some <strong>bold</strong> and <em>italic</em> text.</p>\<newline>'',
           [])
   \<and> (\<exists>r. renderDocument slugifyLib sanitizeHtml hl
            ''#+TITLE: T\<newline>* A\<newline>Some *bold* and /italic/ text.'' defaultOptions = Some r
        \<and> html r = sanitizeHtml
            (''<nav class="toc"><h2>Table of Contents</h2><ul><li><a href="#a">A</a></li></ul></nav>\<newline>''
             @ ''<h1 id="a">A</h1>\<newline><p>Some <strong>bold</strong> and <em>italic</em> text.</p>\<newline>''))\<close>
  using sample_document_parts[of slugifyLib hl]
    renderDocument_of_parts[OF sample_document_parts[of slugifyLib hl], of sanitizeHtml]
  by (simp add: defaultOptions_def)

text \<open>
  C1, as the claim states it (the body alone, no table of contents, no footnotes), fails.
\<close>

theorem sample_document_toc_absent_counterexample:
  \<open>renderDocumentParts sameSlug throwingHighlighter
     ''#+TITLE: T\<newline>* A\<newline>Some *bold* and /italic/ text.'' defaultOptions
   \<noteq> Some ([],
           ''<h1 id="a">A</h1>\<newline><p>Some <strong>bold</strong> and <em>italic</em> text.</p>\<newline>'',
           [])\<close>
  by (simp only: sample_document_parts[of sameSlug throwingHighlighter]) simp

text \<open>
  C3, as the code has it. The table of the claim has two rows: the row \<open>|a|b|\<close> is a data
  row like \<open>|1|2|\<close> (the parser knows no header rows), and the separator row between them
  gives no row.
\<close>

theorem sample_table_has_two_rows:
  "map_option children (parse slugifyLib ''|a|b|\<newline>|-|-|\<newline>|1|2|'')
   = Some [createNode Table (Some emptyProps) (Some
      [createNode TableRow (Some emptyProps) (Some
         [createNode TableCell (Some emptyProps) (Some [createTextNode ''a'']),
          createNode TableCell (Some emptyProps) (Some [createTextNode ''b''])]),
       createNode TableRow (Some emptyProps) (Some
         [createNode TableCell (Some emptyProps) (Some [createTextNode ''1'']),
          createNode TableCell (Some emptyProps) (Some [createTextNode ''2''])])])]"
  using sample_table_children[of slugifyLib] by simp

text \<open>C3, as the claim states it (one row, with the cells 1 and 2), fails.\<close>

theorem sample_table_one_row_counterexample:
  "map_option children (parse sameSlug ''|a|b|\<newline>|-|-|\<newline>|1|2|'')
   \<noteq> Some [createNode Table (Some emptyProps) (Some
      [createNode TableRow (Some emptyProps) (Some
         [createNode TableCell (Some emptyProps) (Some [createTextNode ''1'']),
          createNode TableCell (Some emptyProps) (Some [createTextNode ''2''])])])]"
  by (simp only: sample_table_children[of sameSlug]) (simp add: createNode_def)

text \<open>
  C2, as the code has it. A line that starts with \<open>#+\<close> and does not match the metadata
  pattern does not end the extraction: outside a property drawer the loop skips it and
  goes on with the next line. The index returned is the first index at which the loop
  is outside a property drawer and the line is not blank and starts with neither \<open>#\<close>
  nor a colon, or the number of lines when there is no such index: every line before it
  is inside a drawer or fails that test, and the line at it passes. So a line that starts
  with \<open>#\<close>, with no such index before it, is before the index returned. The body handed
  to the lexer is the lines from the index returned on, and nothing else.
\<close>

theorem hash_line_is_skipped_until_content:
  "(i < length lines \<and> startsWith (trim (lines ! i)) ''#+''
      \<and> matchKeyValue ''#+'' (trim (lines ! i)) = None
    \<longrightarrow> extractLoop lines i False props md = extractLoop lines (i + 1) False props md)
   \<and> snd (extractMetadata slugifyLib lines) \<le> length lines
   \<and> (\<forall>j < snd (extractMetadata slugifyLib lines).
         inDrawerAt lines j \<or> \<not> stopsExtraction (lines ! j))
   \<and> (snd (extractMetadata slugifyLib lines) < length lines \<longrightarrow>
         \<not> inDrawerAt lines (snd (extractMetadata slugifyLib lines))
         \<and> stopsExtraction (lines ! snd (extractMetadata slugifyLib lines)))
   \<and> (j < length lines \<and> startsWith (trim (lines ! j)) ''#''
        \<and> (\<forall>m < j. inDrawerAt lines m \<or> \<not> stopsExtraction (lines ! m))
      \<longrightarrow> j < snd (extractMetadata slugifyLib lines))
   \<and> map_option children (parse slugifyLib content)
       = parseTokens (tokenize (join
           (drop (snd (extractMetadata slugifyLib (split content newline))) (split content newline))
           newline))"
proof -
  let ?K = "snd (extractMetadata slugifyLib lines)"
  note fs = extractMetadata_first_stop[of slugifyLib lines]
  have top: "j < ?K"
    if a: "j < length lines" "startsWith (trim (lines ! j)) ''#''"
      "\<forall>m < j. inDrawerAt lines m \<or> \<not> stopsExtraction (lines ! m)"
  proof (rule ccontr)
    assume "\<not> j < ?K"
    then have kj: "?K \<le> j" by simp
    with a(1) have "?K < length lines" by simp
    with fs have st: "\<not> inDrawerAt lines ?K" "stopsExtraction (lines ! ?K)" by simp_all
    show False
    proof (cases "?K = j")
      case True
      with st(2) a(2) show False by (simp add: stopsExtraction_def)
    next
      case False
      with kj have "?K < j" by simp
      with a(3) st show False by blast
    qed
  qed
  from fs top unmatched_hash_skipped[of i lines props md] parse_body[of slugifyLib content]
  show ?thesis by blast
qed

theorem hash_line_is_skipped_until_content_witness:
  "(3 < length ['':PROPERTIES:'', ''hello'', '':END:'', ''#+BEGIN_SRC js'', ''code''] \<and> startsWith (trim (['':PROPERTIES:'', ''hello'', '':END:'', ''#+BEGIN_SRC js'', ''code''] ! 3)) ''#+''
      \<and> matchKeyValue ''#+'' (trim (['':PROPERTIES:'', ''hello'', '':END:'', ''#+BEGIN_SRC js'', ''code''] ! 3)) = None)
   \<and> extractLoop ['':PROPERTIES:'', ''hello'', '':END:'', ''#+BEGIN_SRC js'', ''code''] 3 False [] initialMetadata = extractLoop ['':PROPERTIES:'', ''hello'', '':END:'', ''#+BEGIN_SRC js'', ''code''] (3 + 1) False [] initialMetadata
   \<and> snd (extractMetadata sameSlug ['':PROPERTIES:'', ''hello'', '':END:'', ''#+BEGIN_SRC js'', ''code'']) = 4
   \<and> inDrawerAt ['':PROPERTIES:'', ''hello'', '':END:'', ''#+BEGIN_SRC js'', ''code''] 1 \<and> stopsExtraction (['':PROPERTIES:'', ''hello'', '':END:'', ''#+BEGIN_SRC js'', ''code''] ! 1)
   \<and> \<not> inDrawerAt ['':PROPERTIES:'', ''hello'', '':END:'', ''#+BEGIN_SRC js'', ''code''] 4 \<and> stopsExtraction (['':PROPERTIES:'', ''hello'', '':END:'', ''#+BEGIN_SRC js'', ''code''] ! 4)"
proof -
  note f = drawer_lines_facts
  have l: "snd (extractMetadata sameSlug ['':PROPERTIES:'', ''hello'', '':END:'', ''#+BEGIN_SRC js'', ''code'']) < length ['':PROPERTIES:'', ''hello'', '':END:'', ''#+BEGIN_SRC js'', ''code'']"
    using f by simp
  from hash_line_is_skipped_until_content[of 3 "['':PROPERTIES:'', ''hello'', '':END:'', ''#+BEGIN_SRC js'', ''code'']" "[]" initialMetadata sameSlug 3 "[]"]
  have "(3 < length ['':PROPERTIES:'', ''hello'', '':END:'', ''#+BEGIN_SRC js'', ''code''] \<and> startsWith (trim (['':PROPERTIES:'', ''hello'', '':END:'', ''#+BEGIN_SRC js'', ''code''] ! 3)) ''#+''
      \<and> matchKeyValue ''#+'' (trim (['':PROPERTIES:'', ''hello'', '':END:'', ''#+BEGIN_SRC js'', ''code''] ! 3)) = None
    \<longrightarrow> extractLoop ['':PROPERTIES:'', ''hello'', '':END:'', ''#+BEGIN_SRC js'', ''code''] 3 False [] initialMetadata = extractLoop ['':PROPERTIES:'', ''hello'', '':END:'', ''#+BEGIN_SRC js'', ''code''] (3 + 1) False [] initialMetadata)
    \<and> (snd (extractMetadata sameSlug ['':PROPERTIES:'', ''hello'', '':END:'', ''#+BEGIN_SRC js'', ''code'']) < length ['':PROPERTIES:'', ''hello'', '':END:'', ''#+BEGIN_SRC js'', ''code''] \<longrightarrow>
         \<not> inDrawerAt ['':PROPERTIES:'', ''hello'', '':END:'', ''#+BEGIN_SRC js'', ''code''] (snd (extractMetadata sameSlug ['':PROPERTIES:'', ''hello'', '':END:'', ''#+BEGIN_SRC js'', ''code'']))
         \<and> stopsExtraction (['':PROPERTIES:'', ''hello'', '':END:'', ''#+BEGIN_SRC js'', ''code''] ! snd (extractMetadata sameSlug ['':PROPERTIES:'', ''hello'', '':END:'', ''#+BEGIN_SRC js'', ''code''])))"
    by blast
  with f l show ?thesis by metis
qed

text \<open>
  C2, as the claim states it, fails: the first line starts with \<open>#+\<close> and does not match
  the pattern, and it is not part of the body.
\<close>

theorem hash_line_ends_extraction_counterexample:
  "startsWith ''#+BEGIN_SRC js'' ''#+'' \<and> matchKeyValue ''#+'' (trim ''#+BEGIN_SRC js'') = None
   \<and> snd (extractMetadata sameSlug [''#+BEGIN_SRC js'', ''code'']) = 1
   \<and> drop (snd (extractMetadata sameSlug [''#+BEGIN_SRC js'', ''code''])) [''#+BEGIN_SRC js'', ''code'']
       = [''code'']"
  by code_simp

text \<open>
  C8, as the code has it. The metadata of the result of \<open>renderToHtml\<close> is the metadata
  of the document it was given, whatever the options. The metadata of a parsed document
  is what the metadata extractor returned for its lines, with three fields set by
  \<open>parse\<close>: reading time, word count and excerpt. The extractor itself derives one field
  that no front-matter line gives: the slug, made from a title that is not empty.
\<close>

theorem render_keeps_metadata:
  "resultMetadata (renderToHtml sanitizeHtml hl ast opts) = metadata ast
   \<and> (parse slugifyLib content = Some ast \<longrightarrow>
        metadata ast = (fst (extractMetadata slugifyLib (split content newline)))
          \<lparr> md_readingTime := Some (calculateReadingTime (extractPlainText (children ast))),
            md_wordCount := Some (splitWhitespaceLength (extractPlainText (children ast))),
            md_excerpt :=
              (if md_description (fst (extractMetadata slugifyLib (split content newline))) \<noteq> None
                  \<and> md_description (fst (extractMetadata slugifyLib (split content newline))) \<noteq> Some []
               then md_description (fst (extractMetadata slugifyLib (split content newline)))
               else Some (extractExcerpt (extractPlainText (children ast)) 160)) \<rparr>)
   \<and> md_slug (fst (extractMetadata slugifyLib lines))
       = (case md_title (fst (extractMetadata slugifyLib lines)) of
            None \<Rightarrow> None
          | Some t \<Rightarrow> if t = [] then None else Some (slugifyLib t))"
proof -
  have 1: "resultMetadata (renderToHtml sanitizeHtml hl ast opts) = metadata ast"
    by (simp add: renderToHtml_def Let_def case_prod_unfold)
  have 2: "parse slugifyLib content = Some ast \<Longrightarrow>
        metadata ast = (fst (extractMetadata slugifyLib (split content newline)))
          \<lparr> md_readingTime := Some (calculateReadingTime (extractPlainText (children ast))),
            md_wordCount := Some (splitWhitespaceLength (extractPlainText (children ast))),
            md_excerpt :=
              (if md_description (fst (extractMetadata slugifyLib (split content newline))) \<noteq> None
                  \<and> md_description (fst (extractMetadata slugifyLib (split content newline))) \<noteq> Some []
               then md_description (fst (extractMetadata slugifyLib (split content newline)))
               else Some (extractExcerpt (extractPlainText (children ast)) 160)) \<rparr>"
    using extractMetadata_derived[of slugifyLib "split content newline"]
    by (auto simp: parse_def Let_def case_prod_unfold createDocument_def split: option.splits)
  from 1 2 extractMetadata_derived[of slugifyLib lines] show ?thesis by blast
qed

theorem render_keeps_metadata_witness:
  "parse sameSlug ''#+TITLE: T'' = Some (the (parse sameSlug ''#+TITLE: T''))
   \<and> resultMetadata (renderToHtml sameHtml throwingHighlighter (the (parse sameSlug ''#+TITLE: T'')) defaultOptions)
       = metadata (the (parse sameSlug ''#+TITLE: T''))
   \<and> md_wordCount (metadata (the (parse sameSlug ''#+TITLE: T''))) = Some 1"
proof -
  have h: "parse sameSlug ''#+TITLE: T'' = Some (the (parse sameSlug ''#+TITLE: T''))"
    by code_simp
  have c: "children (the (parse sameSlug ''#+TITLE: T'')) = []"
    by code_simp
  from render_keeps_metadata[of sameHtml throwingHighlighter "the (parse sameSlug ''#+TITLE: T'')"
      defaultOptions sameSlug "''#+TITLE: T''" "[]"] h c
  show ?thesis by (simp add: splitWhitespaceLength_def)
qed

text \<open>
  C8, as the claim states it, fails where it names reading time, word count and
  excerpt as the only fields that are not in the front-matter: for the front-matter
  \<open>#+TITLE: T\<close> the loop over the lines sets no slug, and the metadata of the document
  and of the render result have one.
\<close>

theorem slug_not_in_front_matter_counterexample:
  "parse sameSlug ''#+TITLE: T'' \<noteq> None
   \<and> md_slug (fst (extractLoop [''#+TITLE: T''] 0 False [] initialMetadata)) = None
   \<and> md_slug (metadata (the (parse sameSlug ''#+TITLE: T''))) = Some ''T''
   \<and> md_slug (resultMetadata (renderToHtml sameHtml throwingHighlighter
        (the (parse sameSlug ''#+TITLE: T'')) defaultOptions)) = Some ''T''"
  by code_simp

text \<open>
  C4. Every document parses, and every heading rendered for it has a tag number between
  one and six: this holds for the level of every heading record that rendering the
  document collects (a record is made by each call of \<open>renderHeading\<close>, with the number of
  its tag), and the HTML of every heading node of the document is \<open><hN id="\<dots>">\<dots></hN>\<close>
  with such an N. For a line that the lexer reads as a heading, N is the number of its
  asterisks, or six when there are more.
\<close>

theorem heading_tag_in_range:
  \<open>(\<exists>ast. parse slugifyLib content = Some ast
      \<and> (\<forall>h \<in> set (headings (snd (renderNodes hl (children ast) (initialContext opts)))).
            1 \<le> hLevel h \<and> hLevel h \<le> 6)
      \<and> (\<forall>node \<in> set (children ast). ntype node = Heading \<longrightarrow>
            (\<exists>N body. 1 \<le> N \<and> N \<le> 6
               \<and> fst (renderNode hl node ctx)
                   = ''<h'' @ showInt N @ '' id="'' @ body @ ''</h'' @ showInt N @ ''>'' @ newline)))
   \<and> (trim line \<noteq> [] \<and> matchHeading (trim line) = Some (stars, tx) \<longrightarrow>
        (\<exists>body. fst (renderHeading (parseHeading (tokenizeLine i line)) ctx)
           = ''<h'' @ showInt (min (int (length stars)) 6) @ '' id="'' @ body))\<close>
proof -
  from parse_levelsOk[of slugifyLib content] obtain ast where
    a: "parse slugifyLib content = Some ast" "\<forall>n \<in> set (children ast). levelsOk n" by blast
  have "headingsInRange (initialContext opts)"
    by (simp add: headingsInRange_def initialContext_def)
  from render_inRange(3)[OF a(2) this, of hl]
  have 1: "\<forall>h \<in> set (headings (snd (renderNodes hl (children ast) (initialContext opts)))).
            1 \<le> hLevel h \<and> hLevel h \<le> 6"
    by (simp add: headingsInRange_def)
  from a(2) renderHeading_tag[of _ hl ctx]
  have 2: \<open>\<forall>node \<in> set (children ast). ntype node = Heading \<longrightarrow>
            (\<exists>N body. 1 \<le> N \<and> N \<le> 6
               \<and> fst (renderNode hl node ctx)
                   = ''<h'' @ showInt N @ '' id="'' @ body @ ''</h'' @ showInt N @ ''>'' @ newline)\<close>
    by blast
  from a(1) 1 2 heading_line_tag[of line stars tx i ctx] show ?thesis by blast
qed

theorem heading_tag_in_range_witness:
  \<open>(\<exists>ast. parse sameSlug ''******* Deep'' = Some ast
      \<and> set (headings (snd (renderNodes throwingHighlighter (children ast)
                 (initialContext defaultOptions)))) \<noteq> {}
      \<and> (\<forall>h \<in> set (headings (snd (renderNodes throwingHighlighter (children ast)
                 (initialContext defaultOptions)))).
            1 \<le> hLevel h \<and> hLevel h \<le> 6)
      \<and> (\<exists>node \<in> set (children ast). ntype node = Heading)
      \<and> (\<forall>node \<in> set (children ast). ntype node = Heading \<longrightarrow>
            (\<exists>N body. 1 \<le> N \<and> N \<le> 6
               \<and> fst (renderNode throwingHighlighter node (initialContext defaultOptions))
                   = ''<h'' @ showInt N @ '' id="'' @ body @ ''</h'' @ showInt N @ ''>'' @ newline)))
   \<and> trim ''******* Deep'' \<noteq> [] \<and> matchHeading (trim ''******* Deep'') = Some (''*******'', ''Deep'')
   \<and> (\<exists>body. fst (renderHeading (parseHeading (tokenizeLine 0 ''******* Deep''))
                  (initialContext defaultOptions))
           = ''<h'' @ showInt (min (int (length ''*******'')) 6) @ '' id="'' @ body)\<close>
proof -
  from heading_tag_in_range[of sameSlug "''******* Deep''" throwingHighlighter defaultOptions
      "initialContext defaultOptions" "''******* Deep''" "''*******''" "''Deep''" 0]
  obtain ast where a: "parse sameSlug ''******* Deep'' = Some ast"
    and h: "\<forall>h \<in> set (headings (snd (renderNodes throwingHighlighter (children ast)
                 (initialContext defaultOptions)))). 1 \<le> hLevel h \<and> hLevel h \<le> 6"
    and n: \<open>\<forall>node \<in> set (children ast). ntype node = Heading \<longrightarrow>
            (\<exists>N body. 1 \<le> N \<and> N \<le> 6
               \<and> fst (renderNode throwingHighlighter node (initialContext defaultOptions))
                   = ''<h'' @ showInt N @ '' id="'' @ body @ ''</h'' @ showInt N @ ''>'' @ newline)\<close>
    and l: \<open>trim ''******* Deep'' \<noteq> [] \<and> matchHeading (trim ''******* Deep'') = Some (''*******'', ''Deep'')
       \<longrightarrow> (\<exists>body. fst (renderHeading (parseHeading (tokenizeLine 0 ''******* Deep''))
                  (initialContext defaultOptions))
           = ''<h'' @ showInt (min (int (length ''*******'')) 6) @ '' id="'' @ body)\<close>
    by blast
  from a deep_parse have c: "children ast = [deepHeading]" by simp
  have t: "ntype deepHeading = Heading" by (simp add: deepHeading_def createNode_def)
  from a h n l c t deep_headings deep_match show ?thesis
    by (intro conjI exI[of _ ast]) simp_all
qed







end
